theory Spec2Isabelle
  imports Complex_Main "HOL-Library.AList"
begin

section \<open>The decoded collection\<close>

text \<open>
  \<^verbatim>\<open>json.Unmarshal\<close> into a \<^verbatim>\<open>map[string]any\<close> yields a tree of Go values: \<^verbatim>\<open>nil\<close>,
  \<^verbatim>\<open>bool\<close>, \<^verbatim>\<open>float64\<close>, \<^verbatim>\<open>string\<close>, \<^verbatim>\<open>[]any\<close> and \<^verbatim>\<open>map[string]any\<close>.
  A \<^verbatim>\<open>float64\<close> that a JSON number decodes to is finite, hence a rational; the program
  uses nothing of it but its integer part. A Go map is an association list here: a
  lookup \<^verbatim>\<open>m[k]\<close> is \<open>map_of m k\<close> (\<open>None\<close> is the \<^verbatim>\<open>nil\<close> a missing key reads as), an
  assignment \<^verbatim>\<open>m[k] = v\<close> is \<open>AList.update k v m\<close>.
\<close>

type_synonym float64 = rat

datatype any =
    Nil
  | Bool bool
  | Float64 float64
  | String string
  | Slice "any list"
  | Map "(string \<times> any) list"

type_synonym gomap = "(string \<times> any) list"

text \<open>The run-time panics of the functions below.\<close>

datatype panic =
    InterfaceConversion   \<comment> \<open>a type assertion \<^verbatim>\<open>x.(T)\<close> on a value that is not a \<^verbatim>\<open>T\<close>\<close>
  | IndexOutOfRange       \<comment> \<open>\<^verbatim>\<open>xs[i]\<close> with \<^verbatim>\<open>i >= len(xs)\<close>\<close>
  | CalledPanic           \<comment> \<open>a call of \<^verbatim>\<open>panic\<close>\<close>

text \<open>The type assertions \<^verbatim>\<open>x.(map[string]any)\<close>, \<^verbatim>\<open>x.([]any)\<close>, \<^verbatim>\<open>x.(float64)\<close> and
  \<^verbatim>\<open>x.(string)\<close>, on the result of a map lookup or on an element.\<close>

fun assert_map :: "any option \<Rightarrow> panic + gomap" where
  "assert_map (Some (Map m)) = Inr m"
| "assert_map _ = Inl InterfaceConversion"

fun assert_slice :: "any option \<Rightarrow> panic + any list" where
  "assert_slice (Some (Slice xs)) = Inr xs"
| "assert_slice _ = Inl InterfaceConversion"

fun assert_float64 :: "any option \<Rightarrow> panic + float64" where
  "assert_float64 (Some (Float64 f)) = Inr f"
| "assert_float64 _ = Inl InterfaceConversion"

fun assert_string :: "any option \<Rightarrow> panic + string" where
  "assert_string (Some (String s)) = Inr s"
| "assert_string _ = Inl InterfaceConversion"

text \<open>Indexing a slice, \<^verbatim>\<open>xs[i]\<close>.\<close>

definition index :: "'a list \<Rightarrow> nat \<Rightarrow> panic + 'a" where
  "index xs i = (if i < length xs then Inr (xs ! i) else Inl IndexOutOfRange)"

text \<open>
  The conversion \<^verbatim>\<open>int(f)\<close> of a \<^verbatim>\<open>float64\<close> drops the fraction (towards zero). Where
  the integer part does not fit the 64-bit \<^verbatim>\<open>int\<close>, Go leaves the result to the
  implementation; amd64 gives the least \<^verbatim>\<open>int\<close>, which is what is written here. No
  theorem below depends on that choice.
\<close>

definition int_of_float64 :: "float64 \<Rightarrow> int" where
  "int_of_float64 f =
     (let t = (if 0 \<le> f then \<lfloor>f\<rfloor> else \<lceil>f\<rceil>)
      in if - (2 ^ 63) \<le> t \<and> t < 2 ^ 63 then t else - (2 ^ 63))"

text \<open>\<^verbatim>\<open>slices.Delete(s, i, j)\<close>: the slice without its elements \<^verbatim>\<open>s[i:j]\<close>; it panics
  unless \<^verbatim>\<open>i <= j <= len(s)\<close>.\<close>

definition slices_Delete :: "'a list \<Rightarrow> nat \<Rightarrow> nat \<Rightarrow> panic + 'a list" where
  "slices_Delete s i j =
     (if i \<le> j \<and> j \<le> length s then Inr (take i s @ drop j s) else Inl IndexOutOfRange)"

section \<open>filterResponsesByStatus\<close>

text \<open>
  The innermost loop, \<^verbatim>\<open>for _, statusRange := range statusRanges\<close>, computes \<^verbatim>\<open>inRange\<close>
  for one response. The type assertion on \<^verbatim>\<open>response["code"]\<close> is made in every
  iteration, before the range is read; \<^verbatim>\<open>&&\<close> reads \<^verbatim>\<open>statusRange[1]\<close> only when the
  first comparison holds; \<^verbatim>\<open>break\<close> leaves the loop with \<^verbatim>\<open>inRange = true\<close>.
\<close>

fun inRange :: "gomap \<Rightarrow> int list list \<Rightarrow> panic + bool" where
  "inRange response [] = Inr False"
| "inRange response (statusRange # rest) =
     (case assert_float64 (map_of response ''code'') of
        Inl p \<Rightarrow> Inl p
      | Inr f \<Rightarrow>
          let code = int_of_float64 f in
          (case index statusRange 0 of
             Inl p \<Rightarrow> Inl p
           | Inr lo \<Rightarrow>
               if code \<ge> lo then
                 (case index statusRange 1 of
                    Inl p \<Rightarrow> Inl p
                  | Inr hi \<Rightarrow> if code \<le> hi then Inr True else inRange response rest)
               else inRange response rest))"

text \<open>
  The loop \<^verbatim>\<open>for j := len(responses) - 1; j >= 0; j--\<close>. The first argument \<open>n\<close> is
  \<open>j + 1\<close>, so \<open>n = 0\<close> is the exit. The state is the local slice \<^verbatim>\<open>responses\<close> and the
  map \<^verbatim>\<open>endpoint\<close>, which is assigned to only when a response is deleted.
\<close>

fun responses_loop :: "int list list \<Rightarrow> nat \<Rightarrow> any list \<Rightarrow> gomap \<Rightarrow> panic + gomap" where
  "responses_loop statusRanges 0 responses endpoint = Inr endpoint"
| "responses_loop statusRanges (Suc j) responses endpoint =
     (case index responses j of
        Inl p \<Rightarrow> Inl p
      | Inr responseAny \<Rightarrow>
          (case assert_map (Some responseAny) of
             Inl p \<Rightarrow> Inl p
           | Inr response \<Rightarrow>
               (case inRange response statusRanges of
                  Inl p \<Rightarrow> Inl p
                | Inr ok \<Rightarrow>
                    if \<not> ok then
                      (case slices_Delete responses j (j + 1) of
                         Inl p \<Rightarrow> Inl p
                       | Inr responses' \<Rightarrow>
                           responses_loop statusRanges j responses'
                             (AList.update ''response'' (Slice responses') endpoint))
                    else responses_loop statusRanges j responses endpoint)))"

text \<open>
  The loop \<^verbatim>\<open>for _, endpointAny := range endpoints\<close>. A Go map is a reference: the
  assignment to \<^verbatim>\<open>endpoint["response"]\<close> changes the map that the element of
  \<^verbatim>\<open>collection["item"]\<close> points to. The model makes that explicit: the loop returns the
  elements as they are after the mutation.
\<close>

fun endpoints_loop :: "int list list \<Rightarrow> any list \<Rightarrow> panic + any list" where
  "endpoints_loop statusRanges [] = Inr []"
| "endpoints_loop statusRanges (endpointAny # rest) =
     (case assert_map (Some endpointAny) of
        Inl p \<Rightarrow> Inl p
      | Inr endpoint \<Rightarrow>
          (case assert_slice (map_of endpoint ''response'') of
             Inl p \<Rightarrow> Inl p
           | Inr responses \<Rightarrow>
               (case responses_loop statusRanges (length responses) responses endpoint of
                  Inl p \<Rightarrow> Inl p
                | Inr endpoint' \<Rightarrow>
                    (case endpoints_loop statusRanges rest of
                       Inl p \<Rightarrow> Inl p
                     | Inr rest' \<Rightarrow> Inr (Map endpoint' # rest')))))"

text \<open>
  \<^verbatim>\<open>statusRanges\<close> is a \<^verbatim>\<open>[][]int\<close> that may be \<^verbatim>\<open>nil\<close> (\<open>None\<close>). The function returns
  nothing; the result here is the collection as the caller sees it afterwards, or the
  panic.
\<close>

definition filterResponsesByStatus :: "gomap \<Rightarrow> int list list option \<Rightarrow> panic + gomap" where
  "filterResponsesByStatus collection statusRanges =
     (case statusRanges of
        None \<Rightarrow> Inr collection
      | Some rs \<Rightarrow>
          if length rs = 0 then Inr collection
          else
            (case assert_slice (map_of collection ''item'') of
               Inl p \<Rightarrow> Inl p
             | Inr endpoints \<Rightarrow>
                 (case endpoints_loop rs endpoints of
                    Inl p \<Rightarrow> Inl p
                  | Inr endpoints' \<Rightarrow>
                      Inr (AList.update ''item'' (Slice endpoints') collection))))"

text \<open>
  The statement of the filter in the words of the specification. A status range is a
  pair of inclusive bounds; a code is kept when some range holds it.
\<close>

fun in_range :: "int \<Rightarrow> int list \<Rightarrow> bool" where
  "in_range code [start, end] = (start \<le> code \<and> code \<le> end)"
| "in_range code r = False"

definition in_some_range :: "int \<Rightarrow> int list list \<Rightarrow> bool" where
  "in_some_range code rs = (\<exists>r \<in> set rs. in_range code r)"

text \<open>The status code of a response: its numeric \<^verbatim>\<open>code\<close> field, as an integer.\<close>

fun code_of :: "any \<Rightarrow> int option" where
  "code_of (Map m) =
     (case map_of m ''code'' of Some (Float64 f) \<Rightarrow> Some (int_of_float64 f) | _ \<Rightarrow> None)"
| "code_of _ = None"

definition kept :: "int list list \<Rightarrow> any \<Rightarrow> bool" where
  "kept rs response =
     (case code_of response of Some code \<Rightarrow> in_some_range code rs | None \<Rightarrow> False)"

text \<open>
  The shape of the data model: a Response is a mapping with a numeric \<^verbatim>\<open>code\<close>, an
  Endpoint a mapping whose \<^verbatim>\<open>response\<close> is a sequence of Responses, a Collection a
  mapping whose \<^verbatim>\<open>item\<close> is a sequence of Endpoints.
\<close>

fun responses_of :: "any \<Rightarrow> any list option" where
  "responses_of (Map m) =
     (case map_of m ''response'' of Some (Slice rs) \<Rightarrow> Some rs | _ \<Rightarrow> None)"
| "responses_of _ = None"

definition is_response :: "any \<Rightarrow> bool" where
  "is_response x = (code_of x \<noteq> None)"

definition is_endpoint :: "any \<Rightarrow> bool" where
  "is_endpoint x =
     (case responses_of x of Some rs \<Rightarrow> list_all is_response rs | None \<Rightarrow> False)"

definition endpoints_of :: "gomap \<Rightarrow> any list" where
  "endpoints_of c = (case map_of c ''item'' of Some (Slice es) \<Rightarrow> es | _ \<Rightarrow> [])"

definition is_collection :: "gomap \<Rightarrow> bool" where
  "is_collection c =
     (case map_of c ''item'' of Some (Slice es) \<Rightarrow> list_all is_endpoint es | _ \<Rightarrow> False)"

text \<open>An endpoint with \<open>f\<close> applied to its \<^verbatim>\<open>response\<close> list and nothing else changed.\<close>

fun with_responses :: "(any list \<Rightarrow> any list) \<Rightarrow> any \<Rightarrow> any" where
  "with_responses f (Map m) =
     (case map_of m ''response'' of
        Some (Slice rs) \<Rightarrow> Map (AList.update ''response'' (Slice (f rs)) m)
      | _ \<Rightarrow> Map m)"
| "with_responses f x = x"

text \<open>
  What the loops do with one element, when nothing is known of the shape: \<open>checks\<close> holds
  of a response on which the loop body does not panic, \<open>passes\<close> of one that it keeps.
\<close>

fun passes :: "int list list \<Rightarrow> any \<Rightarrow> bool" where
  "passes rs (Map r) = (inRange r rs = Inr True)"
| "passes rs x = False"

fun checks :: "int list list \<Rightarrow> any \<Rightarrow> bool" where
  "checks rs (Map r) = (case inRange r rs of Inr b \<Rightarrow> True | Inl p \<Rightarrow> False)"
| "checks rs x = False"

fun endpoint_checks :: "int list list \<Rightarrow> any \<Rightarrow> bool" where
  "endpoint_checks rs (Map m) =
     (case map_of m ''response'' of
        Some (Slice rsp) \<Rightarrow> list_all (checks rs) rsp
      | _ \<Rightarrow> False)"
| "endpoint_checks rs x = False"

section \<open>parseCollection\<close>

text \<open>
  Error values. \<^verbatim>\<open>fmt.Errorf(format, args...)\<close> is kept as its format and its arguments
  (the strings handed to \<^verbatim>\<open>%s\<close> and \<^verbatim>\<open>%q\<close>), not as the formatted text. An error
  made by the standard library (\<^verbatim>\<open>encoding/json\<close>, \<^verbatim>\<open>os\<close>, \<^verbatim>\<open>html/template\<close>) is kept
  as its message.
\<close>

datatype error =
    LibError string
  | Errorf string "string list"

definition schema_v210 :: string where
  "schema_v210 = ''https://schema.getpostman.com/json/collection/v2.1.0/collection.json''"

definition unknown_schema :: error where
  "unknown_schema =
     Errorf ''Unknown JSON schema. When exporting from Postman, export as Collection v2.1.0'' []"

text \<open>
  \<^verbatim>\<open>json.Unmarshal\<close> belongs to the standard library. The argument of the model is the
  outcome of \<^verbatim>\<open>json.Unmarshal(jsonBytes, &collection)\<close>: \<open>Inl\<close> the message of its error,
  \<open>Inr\<close> the map it decoded. The function returns \<^verbatim>\<open>nil, err\<close> (\<open>Inl\<close>) or
  \<^verbatim>\<open>collection, nil\<close> (\<open>Inr\<close>), unless the type assertion on \<^verbatim>\<open>collection["info"]\<close>
  panics. The comparison \<^verbatim>\<open>!=\<close> is between interface values: they are equal only when
  the field holds a string with the same bytes.
\<close>

definition parseCollection :: "string + gomap \<Rightarrow> panic + (error + gomap)" where
  "parseCollection unmarshalled =
     (case unmarshalled of
        Inl msg \<Rightarrow> Inr (Inl (LibError msg))
      | Inr collection \<Rightarrow>
          (case assert_map (map_of collection ''info'') of
             Inl p \<Rightarrow> Inl p
           | Inr info \<Rightarrow>
               if map_of info ''schema'' \<noteq> Some (String schema_v210)
               then Inr (Inl unknown_schema)
               else Inr (Inr collection)))"

section \<open>parseStatusRanges\<close>

text \<open>\<^verbatim>\<open>strings.Split(s, sep)\<close> for a separator of one byte: the pieces of \<open>s\<close> between
  the separators, at least one piece, the empty pieces kept.\<close>

fun strings_Split :: "string \<Rightarrow> char \<Rightarrow> string list" where
  "strings_Split [] sep = [[]]"
| "strings_Split (c # cs) sep =
     (if c = sep then [] # strings_Split cs sep
      else (c # hd (strings_Split cs sep)) # tl (strings_Split cs sep))"

text \<open>
  \<^verbatim>\<open>strconv.Atoi\<close>: an optional sign, then one or more decimal digits and nothing else;
  the value must fit the 64-bit \<^verbatim>\<open>int\<close>. Its error is discarded by the caller, so
  \<open>None\<close> stands for it.
\<close>

definition is_digit :: "char \<Rightarrow> bool" where
  "is_digit c = (c \<in> set ''0123456789'')"

definition digit_val :: "char \<Rightarrow> int" where
  "digit_val c = int (of_char c) - 48"

definition decimal :: "string \<Rightarrow> int" where
  "decimal s = foldl (\<lambda>n c. n * 10 + digit_val c) 0 s"

definition Atoi :: "string \<Rightarrow> int option" where
  "Atoi s =
     (let digits = (case s of [] \<Rightarrow> s | c # cs \<Rightarrow> if c = CHR ''-'' \<or> c = CHR ''+'' then cs else s)
      in if digits = [] \<or> \<not> list_all is_digit digits then None
         else
           let n = (if take 1 s = ''-'' then - decimal digits else decimal digits)
           in if n < - (2 ^ 63) \<or> 2 ^ 63 \<le> n then None else Some n)"

definition dashes_format :: string where
  "dashes_format = ''Invalid status format. There should be zero or one dashes in %s''"

definition integer_format :: string where
  "integer_format = ''Invalid status range format. Expected an integer, got %q''"

text \<open>
  The body of the loop for one \<^verbatim>\<open>statusRangeStr\<close>. \<open>Inr (Inl e)\<close> is the early
  \<^verbatim>\<open>return nil, e\<close>; \<open>Inr (Inr [start, end])\<close> is the two-element slice that the
  iteration stores at \<^verbatim>\<open>statusRanges[i]\<close>.
\<close>

definition statusRange_body :: "string \<Rightarrow> panic + (error + int list)" where
  "statusRange_body statusRangeStr =
     (let startAndEnd = strings_Split statusRangeStr CHR ''-'' in
      if length startAndEnd > 2 then Inr (Inl (Errorf dashes_format [statusRangeStr]))
      else
        (case index startAndEnd 0 of
           Inl p \<Rightarrow> Inl p
         | Inr s0 \<Rightarrow>
             (case Atoi s0 of
                None \<Rightarrow> Inr (Inl (Errorf integer_format [s0]))
              | Some start \<Rightarrow>
                  if length startAndEnd > 1 then
                    (case index startAndEnd 1 of
                       Inl p \<Rightarrow> Inl p
                     | Inr s1 \<Rightarrow>
                         (case Atoi s1 of
                            None \<Rightarrow> Inr (Inl (Errorf integer_format [s1]))
                          | Some end \<Rightarrow> Inr (Inr [start, end])))
                  else Inr (Inr [start, start]))))"

text \<open>
  The loop \<^verbatim>\<open>for i, statusRangeStr := range statusRangeStrs\<close> over the slice
  \<^verbatim>\<open>statusRanges\<close> made with \<^verbatim>\<open>make([][]int, len(statusRangeStrs))\<close>. The result is the
  pair that the function returns.
\<close>

fun statusRanges_loop ::
  "nat \<Rightarrow> string list \<Rightarrow> int list list \<Rightarrow> panic + (int list list option \<times> error option)" where
  "statusRanges_loop i [] statusRanges = Inr (Some statusRanges, None)"
| "statusRanges_loop i (statusRangeStr # rest) statusRanges =
     (case statusRange_body statusRangeStr of
        Inl p \<Rightarrow> Inl p
      | Inr (Inl e) \<Rightarrow> Inr (None, Some e)
      | Inr (Inr r) \<Rightarrow>
          if i < length statusRanges then statusRanges_loop (Suc i) rest (statusRanges[i := r])
          else Inl IndexOutOfRange)"

definition parseStatusRanges :: "string \<Rightarrow> panic + (int list list option \<times> error option)" where
  "parseStatusRanges statusesStr =
     (if length statusesStr = 0 then Inr (None, None)
      else
        let statusRangeStrs = strings_Split statusesStr CHR '','' in
        statusRanges_loop 0 statusRangeStrs (replicate (length statusRangeStrs) []))"

text \<open>
  The grammar of the specification, \<open>range (',' range)*\<close> with \<open>range := INT | INT '-' INT\<close>:
  a range is written as its start and, optionally, its end; \<open>INT\<close> is a non-empty string
  of decimal digits whose value fits \<^verbatim>\<open>int\<close>.
\<close>

definition is_INT :: "string \<Rightarrow> bool" where
  "is_INT s = (s \<noteq> [] \<and> list_all is_digit s \<and> decimal s < 2 ^ 63)"

fun render_range :: "string \<times> string option \<Rightarrow> string" where
  "render_range (n, None) = n"
| "render_range (n, Some m) = n @ ''-'' @ m"

fun join_commas :: "string list \<Rightarrow> string" where
  "join_commas [] = []"
| "join_commas [t] = t"
| "join_commas (t # ts) = t @ '','' @ join_commas ts"

fun wf_range :: "string \<times> string option \<Rightarrow> bool" where
  "wf_range (n, None) = is_INT n"
| "wf_range (n, Some m) = (is_INT n \<and> is_INT m)"

fun range_meaning :: "string \<times> string option \<Rightarrow> int list" where
  "range_meaning (n, None) = [decimal n, decimal n]"
| "range_meaning (n, Some m) = [decimal n, decimal m]"

text \<open>What the claims call a malformed token: more than one dash, or a start or end
  that \<^verbatim>\<open>strconv.Atoi\<close> does not read as an integer.\<close>

definition malformed :: "string \<Rightarrow> bool" where
  "malformed tok =
     (length (strings_Split tok CHR ''-'') > 2
      \<or> (\<exists>s \<in> set (strings_Split tok CHR ''-''). Atoi s = None))"

section \<open>Files and standard output\<close>

text \<open>
  The part of the operating system that the program touches: the files that exist, each
  with its content; the paths at which \<^verbatim>\<open>os.Create\<close> fails, each with the message of the
  error; the paths of the files that are open; and standard output, with what has been
  written to it and whether it has been closed.
\<close>

record world =
  files :: "(string \<times> string) list"
  create_errors :: "(string \<times> string) list"
  open_files :: "string list"
  stdout :: string
  stdout_closed :: bool

text \<open>A \<^verbatim>\<open>*os.File\<close>: \<^verbatim>\<open>nil\<close>, \<^verbatim>\<open>os.Stdout\<close>, or the handle that \<^verbatim>\<open>os.Create\<close> returned for a
  path. The methods of a \<^verbatim>\<open>nil\<close> file return an error and do nothing.\<close>

datatype os_File = NilFile | Stdout | Handle string

text \<open>\<^verbatim>\<open>os.Create(name)\<close> creates the file or truncates it, and opens it.\<close>

definition os_Create :: "world \<Rightarrow> string \<Rightarrow> world \<times> (string + os_File)" where
  "os_Create w name =
     (case map_of (create_errors w) name of
        Some msg \<Rightarrow> (w, Inl msg)
      | None \<Rightarrow>
          (w\<lparr>files := AList.update name [] (files w), open_files := name # open_files w\<rparr>,
           Inr (Handle name)))"

text \<open>\<^verbatim>\<open>os.Remove(name)\<close>, its error dropped as the caller drops it.\<close>

definition os_Remove :: "world \<Rightarrow> string \<Rightarrow> world" where
  "os_Remove w name = w\<lparr>files := AList.delete name (files w)\<rparr>"

text \<open>\<^verbatim>\<open>f.Close()\<close>, its error dropped as the caller drops it.\<close>

fun Close :: "world \<Rightarrow> os_File \<Rightarrow> world" where
  "Close w NilFile = w"
| "Close w Stdout = w\<lparr>stdout_closed := True\<rparr>"
| "Close w (Handle name) = w\<lparr>open_files := removeAll name (open_files w)\<rparr>"

text \<open>Writing to a \<^verbatim>\<open>*os.File\<close> appends to the file or to standard output.\<close>

fun Write :: "world \<Rightarrow> os_File \<Rightarrow> string \<Rightarrow> world" where
  "Write w NilFile bytes = w"
| "Write w Stdout bytes = w\<lparr>stdout := stdout w @ bytes\<rparr>"
| "Write w (Handle name) bytes =
     w\<lparr>files := AList.map_entry name (\<lambda>content. content @ bytes) (files w)\<rparr>"

section \<open>CreateUniqueFileName\<close>

text \<open>
  Modelled from the spec: \<^verbatim>\<open>FileExists\<close>. The repository defines it, with
  \<^verbatim>\<open>CreateUniqueFileName\<close> and \<^verbatim>\<open>FormatFileName\<close>, in its utilities file, of which only the
  tests and the callers are available. It tells whether a file exists at a path.
\<close>

definition FileExists :: "world \<Rightarrow> string \<Rightarrow> bool" where
  "FileExists w name = (map_of (files w) name \<noteq> None)"

text \<open>
  Modelled from the spec: the names \<open>base(1)ext\<close>, \<open>base(2)ext\<close>, ... that the missing
  \<^verbatim>\<open>CreateUniqueFileName\<close> probes. The number is written in decimal, as the tests have it
  (\<^verbatim>\<open>README(1).md\<close>).
\<close>

definition digit_char :: "nat \<Rightarrow> char" where
  "digit_char d = char_of (48 + d)"

fun itoa :: "nat \<Rightarrow> string" where
  "itoa n = (if n < 10 then [digit_char n] else itoa (n div 10) @ [digit_char (n mod 10)])"

definition numbered_name :: "string \<Rightarrow> nat \<Rightarrow> string \<Rightarrow> string" where
  "numbered_name base i ext = base @ ''('' @ itoa i @ '')'' @ ext"

text \<open>
  The probe below ends because distinct numbers give distinct names and the files are
  finitely many; the lemmas up to \<open>finite_numbered\<close> are that argument.
\<close>

declare itoa.simps [simp del]

lemma digit_char_inj:
  assumes "a < 10" and "b < 10" and "digit_char a = digit_char b"
  shows "a = b"
proof -
  from assms(3) have "of_char (char_of (48 + a)) = (of_char (char_of (48 + b)) :: nat)"
    by (simp add: digit_char_def)
  with assms(1,2) show ?thesis by simp
qed

lemma itoa_nonempty: "itoa n \<noteq> []"
  by (subst itoa.simps) simp

lemma itoa_inj: "itoa n = itoa m \<Longrightarrow> n = m"
proof (induction n arbitrary: m rule: itoa.induct)
  case (1 n)
  show ?case
  proof (cases "n < 10")
    case True
    then have n: "itoa n = [digit_char n]" by (subst itoa.simps) simp
    show ?thesis
    proof (cases "m < 10")
      case m: True
      then have "itoa m = [digit_char m]" by (subst itoa.simps) simp
      with n "1.prems" True m show ?thesis by (simp add: digit_char_inj)
    next
      case False
      then have "itoa m = itoa (m div 10) @ [digit_char (m mod 10)]" by (subst itoa.simps) simp
      with n "1.prems" itoa_nonempty[of "m div 10"] show ?thesis by simp
    qed
  next
    case False
    then have n: "itoa n = itoa (n div 10) @ [digit_char (n mod 10)]" by (subst itoa.simps) simp
    show ?thesis
    proof (cases "m < 10")
      case True
      then have "itoa m = [digit_char m]" by (subst itoa.simps) simp
      with n "1.prems" itoa_nonempty[of "n div 10"] show ?thesis by simp
    next
      case m: False
      then have "itoa m = itoa (m div 10) @ [digit_char (m mod 10)]" by (subst itoa.simps) simp
      with n "1.prems" have e: "itoa (n div 10) = itoa (m div 10)"
        and d: "digit_char (n mod 10) = digit_char (m mod 10)" by simp_all
      from "1.IH"[OF False e] have "n div 10 = m div 10" .
      moreover from d have "n mod 10 = m mod 10" by (simp add: digit_char_inj)
      ultimately show ?thesis by (metis div_mult_mod_eq)
    qed
  qed
qed

lemma numbered_name_inj: "numbered_name base i ext = numbered_name base j ext \<Longrightarrow> i = j"
  by (simp add: numbered_name_def itoa_inj)

lemma finite_numbered: "finite {j. FileExists w (numbered_name base j ext)}"
proof -
  have "{j. FileExists w (numbered_name base j ext)} \<subseteq> (\<lambda>j. numbered_name base j ext) -` (fst ` set (files w))"
    by (auto simp: FileExists_def map_of_eq_None_iff)
  moreover have "finite ((\<lambda>j. numbered_name base j ext) -` (fst ` set (files w)))"
    by (intro finite_vimageI) (auto simp: inj_on_def numbered_name_inj)
  ultimately show ?thesis by (rule finite_subset)
qed

text \<open>
  Modelled from the spec: the sequential probe of the missing \<^verbatim>\<open>CreateUniqueFileName\<close>,
  the first of \<open>base(i)ext\<close>, \<open>base(i+1)ext\<close>, ... at which no file exists.
\<close>

function first_free :: "world \<Rightarrow> string \<Rightarrow> string \<Rightarrow> nat \<Rightarrow> string" where
  "first_free w base ext i =
     (if FileExists w (numbered_name base i ext) then first_free w base ext (Suc i)
      else numbered_name base i ext)"
  by pat_completeness auto
termination
proof (relation "measure (\<lambda>(w, base, ext, i). card {j. i \<le> j \<and> FileExists w (numbered_name base j ext)})")
  show "wf (measure (\<lambda>(w, base, ext, i). card {j. i \<le> j \<and> FileExists w (numbered_name base j ext)}))"
    by simp
next
  fix w base ext i
  assume e: "FileExists w (numbered_name base i ext)"
  have fin: "finite {j. i \<le> j \<and> FileExists w (numbered_name base j ext)}"
    using finite_numbered[of w base ext] by (rule rev_finite_subset) auto
  have "i \<in> {j. i \<le> j \<and> FileExists w (numbered_name base j ext)}"
    using e by simp
  moreover have "i \<notin> {j. Suc i \<le> j \<and> FileExists w (numbered_name base j ext)}"
    by simp
  moreover have "{j. Suc i \<le> j \<and> FileExists w (numbered_name base j ext)}
          \<subseteq> {j. i \<le> j \<and> FileExists w (numbered_name base j ext)}"
    by auto
  ultimately have "{j. Suc i \<le> j \<and> FileExists w (numbered_name base j ext)}
          \<subset> {j. i \<le> j \<and> FileExists w (numbered_name base j ext)}"
    by blast
  with fin have "card {j. Suc i \<le> j \<and> FileExists w (numbered_name base j ext)}
                < card {j. i \<le> j \<and> FileExists w (numbered_name base j ext)}"
    by (rule psubset_card_mono)
  then show "((w, base, ext, Suc i), (w, base, ext, i))
      \<in> measure (\<lambda>(w, base, ext, i). card {j. i \<le> j \<and> FileExists w (numbered_name base j ext)})"
    by simp
qed

declare first_free.simps [simp del]

text \<open>
  Modelled from the spec: \<^verbatim>\<open>CreateUniqueFileName\<close>, whose source is missing. The extension
  is empty, or begins with a dot and is more than the dot, and anything else is a panic;
  the result is \<open>base + ext\<close> when no file exists there, and otherwise the first free
  \<open>base(i)ext\<close>, probing from 1. The function only reads whether files exist, so the
  world that it returns is the world that it was given.
\<close>

definition CreateUniqueFileName :: "world \<Rightarrow> string \<Rightarrow> string \<Rightarrow> world \<times> (panic + string)" where
  "CreateUniqueFileName w base ext =
     (if ext \<noteq> [] \<and> (hd ext \<noteq> CHR ''.'' \<or> ext = ''.'') then (w, Inl CalledPanic)
      else if \<not> FileExists w (base @ ext) then (w, Inr (base @ ext))
      else (w, Inr (first_free w base ext 1)))"

section \<open>getDestFile\<close>

text \<open>
  \<^verbatim>\<open>FormatFileName\<close>, the transform that makes a file name of the collection's name, is
  a parameter: the specification says only that it strips or replaces the characters
  that are illegal in file names. The result is the world afterwards and the triple
  that the function returns: the file, the name and the error (\<open>None\<close> is \<^verbatim>\<open>nil\<close>).
\<close>

definition file_exists_format :: string where
  "file_exists_format =
     ''File %q already exists. Run the command again with the --replace flag to confirm replacing it.''"

text \<open>The end of the function, from \<^verbatim>\<open>os.Create(destName)\<close> on, which both branches that
  do not return earlier reach; \<open>destName\<close> is the variable as it is then.\<close>

definition getDestFile_create ::
  "world \<Rightarrow> string \<Rightarrow> panic + (world \<times> (os_File \<times> string \<times> error option))" where
  "getDestFile_create w destName =
     (case os_Create w destName of
        (w', Inl msg) \<Rightarrow> Inr (w', (NilFile, [], Some (Errorf ''os.Create: %s'' [msg])))
      | (w', Inr destFile) \<Rightarrow> Inr (w', (destFile, destName, None)))"

definition getDestFile ::
  "(string \<Rightarrow> string) \<Rightarrow> world \<Rightarrow> string \<Rightarrow> string \<Rightarrow> bool
     \<Rightarrow> panic + (world \<times> (os_File \<times> string \<times> error option))" where
  "getDestFile FormatFileName w destName collectionName confirmReplaceExistingFile =
     (if destName = ''-'' then Inr (w, (Stdout, destName, None))
      else if length destName = 0 then
        let fileName = FormatFileName collectionName;
            fileName = (if length fileName = 0 then ''collection'' else fileName)
        in (case CreateUniqueFileName w fileName ''.md'' of
              (w', Inl p) \<Rightarrow> Inl p
            | (w', Inr destName) \<Rightarrow> getDestFile_create w' destName)
      else if FileExists w destName \<and> \<not> confirmReplaceExistingFile then
        Inr (w, (NilFile, [], Some (Errorf file_exists_format [destName])))
      else getDestFile_create w destName)"

section \<open>executeTemplate\<close>

text \<open>
  The template engine is \<^verbatim>\<open>html/template\<close> with the repository's \<^verbatim>\<open>funcMap\<close>. Its two
  steps are parameters: \<open>parse\<close> gives the message of the error of
  \<^verbatim>\<open>template.New(tmplName).Funcs(funcMap).Parse(tmplStr)\<close>, if it has one; \<open>execute\<close>
  gives the bytes that \<^verbatim>\<open>tmpl.Execute\<close> writes on the collection and the message of
  its error, if it has one. An execution that fails may have written a part of its
  output before.
\<close>

record engine =
  parse :: "string \<Rightarrow> string \<Rightarrow> string option"
  execute :: "string \<Rightarrow> string \<Rightarrow> gomap \<Rightarrow> string \<times> string option"

definition executeTemplate ::
  "engine \<Rightarrow> world \<Rightarrow> os_File \<Rightarrow> gomap \<Rightarrow> string \<Rightarrow> string \<Rightarrow> world \<times> error option" where
  "executeTemplate eng w destFile collection tmplName tmplStr =
     (case parse eng tmplName tmplStr of
        Some msg \<Rightarrow> (w, Some (Errorf ''Template parsing error: %s'' [msg]))
      | None \<Rightarrow>
          (case execute eng tmplName tmplStr collection of
             (bytes, err) \<Rightarrow> (Write w destFile bytes, map_option LibError err)))"

section \<open>jsonToMdFile\<close>

text \<open>
  The first argument after the parameters is the world, the second the outcome of
  \<^verbatim>\<open>json.Unmarshal\<close> on \<^verbatim>\<open>jsonBytes\<close>. The result is the world afterwards and the pair
  that the function returns. \<open>deferred\<close> is the \<^verbatim>\<open>defer destFile.Close()\<close>, which is
  registered only when \<^verbatim>\<open>destName != "-"\<close> and runs at each return after that.
\<close>

definition jsonToMdFile ::
  "engine \<Rightarrow> (string \<Rightarrow> string) \<Rightarrow> world \<Rightarrow> string + gomap \<Rightarrow> string \<Rightarrow> string \<Rightarrow> string
     \<Rightarrow> int list list option \<Rightarrow> bool \<Rightarrow> panic + (world \<times> (string \<times> error option))" where
  "jsonToMdFile eng FormatFileName w unmarshalled destName tmplName tmplStr statusRanges
       confirmReplaceExistingFile =
     (case parseCollection unmarshalled of
        Inl p \<Rightarrow> Inl p
      | Inr (Inl err) \<Rightarrow> Inr (w, ([], Some err))
      | Inr (Inr collection) \<Rightarrow>
     (case filterResponsesByStatus collection statusRanges of
        Inl p \<Rightarrow> Inl p
      | Inr collection \<Rightarrow>
     (case assert_map (map_of collection ''info'') of
        Inl p \<Rightarrow> Inl p
      | Inr info \<Rightarrow>
     (case assert_string (map_of info ''name'') of
        Inl p \<Rightarrow> Inl p
      | Inr collectionName \<Rightarrow>
     (case getDestFile FormatFileName w destName collectionName confirmReplaceExistingFile of
        Inl p \<Rightarrow> Inl p
      | Inr (w, (_, _, Some err)) \<Rightarrow> Inr (w, ([], Some err))
      | Inr (w, (destFile, destName, None)) \<Rightarrow>
          let deferred = (\<lambda>w. if destName \<noteq> ''-'' then Close w destFile else w) in
          (case executeTemplate eng w destFile collection tmplName tmplStr of
             (w, Some err) \<Rightarrow>
               let w = Close w destFile;
                   w = os_Remove w destName
               in Inr (deferred w, ([], Some err))
           | (w, None) \<Rightarrow> Inr (deferred w, (destName, None))))))))"

text \<open>
  The contract of the destination in the words of the specification. A malformed
  extension is one that is not empty and does not begin with a dot, or is the dot alone.
  The base of a generated name is the sanitized name of the collection, or
  \<^verbatim>\<open>collection\<close> when nothing is left of it. \<open>create_at\<close> is what creating the file at
  exactly one path comes to: the file there is made empty and opened, and it is returned
  with that path as the final name; or the error of \<^verbatim>\<open>os.Create\<close> is returned.
\<close>

definition malformed_ext :: "string \<Rightarrow> bool" where
  "malformed_ext ext = ((ext \<noteq> [] \<and> hd ext \<noteq> CHR ''.'') \<or> ext = ''.'')"

definition base_name :: "(string \<Rightarrow> string) \<Rightarrow> string \<Rightarrow> string" where
  "base_name FormatFileName collectionName =
     (if FormatFileName collectionName = [] then ''collection''
      else FormatFileName collectionName)"

definition create_at ::
  "world \<Rightarrow> string \<Rightarrow> panic + (world \<times> (os_File \<times> string \<times> error option))" where
  "create_at w name =
     (case map_of (create_errors w) name of
        None \<Rightarrow>
          Inr (w\<lparr>files := AList.update name [] (files w), open_files := name # open_files w\<rparr>,
               (Handle name, name, None))
      | Some msg \<Rightarrow> Inr (w, (NilFile, [], Some (Errorf ''os.Create: %s'' [msg]))))"

section \<open>Sample data\<close>

text \<open>
  A collection with the responses 200, 301, 201 and 404 on one endpoint and none on
  another, and what is left of it with the range 200 to 299.
\<close>

definition sample_collection :: gomap where
  "sample_collection =
     [(''info'', Map [(''name'', String ''Sample API''), (''schema'', String schema_v210)]),
      (''item'', Slice
         [Map [(''name'', String ''list users''),
               (''response'', Slice [Map [(''name'', String ''ok''), (''code'', Float64 200)],
                                    Map [(''name'', String ''moved''), (''code'', Float64 301)],
                                    Map [(''name'', String ''created''), (''code'', Float64 201)],
                                    Map [(''name'', String ''missing''), (''code'', Float64 404)]])],
          Map [(''name'', String ''ping''), (''response'', Slice [])]])]"

definition sample_filtered :: gomap where
  "sample_filtered =
     [(''info'', Map [(''name'', String ''Sample API''), (''schema'', String schema_v210)]),
      (''item'', Slice
         [Map [(''name'', String ''list users''),
               (''response'', Slice [Map [(''name'', String ''ok''), (''code'', Float64 200)],
                                    Map [(''name'', String ''created''), (''code'', Float64 201)]])],
          Map [(''name'', String ''ping''), (''response'', Slice [])]])]"

text \<open>
  A directory with the files that the tests of \<^verbatim>\<open>CreateUniqueFileName\<close> rely on, one
  numbered name taken, and a file named \<^verbatim>\<open>-\<close>; nothing is open and nothing has been
  written to standard output.
\<close>

definition repo_dir :: world where
  "repo_dir =
     \<lparr>files = [(''LICENSE'', ''Apache License''), (''README.md'', ''# pm2md''),
                (''README(1).md'', ''''), (''-'', ''notes'')],
      create_errors = [(''/proc/out.md'', ''open /proc/out.md: permission denied'')],
      open_files = [], stdout = [], stdout_closed = False\<rparr>"

text \<open>A sanitizer for the examples: it drops the slashes.\<close>

definition drop_slashes :: "string \<Rightarrow> string" where
  "drop_slashes s = filter (\<lambda>c. c \<noteq> CHR ''/'') s"

text \<open>
  Two engines for the examples. Both parse every template. The first writes a heading
  and then fails, as an execution does that calls a function on a value of the wrong
  shape; the second writes the heading and succeeds.
\<close>

definition failing_engine :: engine where
  "failing_engine =
     \<lparr>parse = (\<lambda>tmplName tmplStr. None),
      execute = (\<lambda>tmplName tmplStr collection. (''# Sample API'', Some ''error calling join''))\<rparr>"

definition working_engine :: engine where
  "working_engine =
     \<lparr>parse = (\<lambda>tmplName tmplStr. None),
      execute = (\<lambda>tmplName tmplStr collection. (''# Sample API'', None))\<rparr>"

section \<open>Properties\<close>

subsection \<open>filterResponsesByStatus\<close>

lemma assert_slice_Inr: "assert_slice v = Inr xs \<longleftrightarrow> v = Some (Slice xs)"
  by (cases v rule: assert_slice.cases) auto

lemma assert_map_Inr: "assert_map v = Inr m \<longleftrightarrow> v = Some (Map m)"
  by (cases v rule: assert_map.cases) auto

lemma assert_float64_Inr: "assert_float64 v = Inr f \<longleftrightarrow> v = Some (Float64 f)"
  by (cases v rule: assert_float64.cases) auto

lemma assert_string_Inr: "assert_string v = Inr s \<longleftrightarrow> v = Some (String s)"
  by (cases v rule: assert_string.cases) auto

lemma checks_cases:
  assumes "checks rs x"
  obtains r b where "x = Map r" and "inRange r rs = Inr b" and "passes rs x = b"
  using assms by (cases x) (auto split: sum.splits)

lemma responses_loop_filter:
  assumes "n \<le> length responses"
    and "map_of endpoint ''response'' = Some (Slice responses)"
    and "\<forall>x \<in> set (take n responses). checks rs x"
  shows "responses_loop rs n responses endpoint =
           Inr (AList.update ''response'' (Slice (filter (passes rs) (take n responses) @ drop n responses)) endpoint)"
  using assms
proof (induction n arbitrary: responses endpoint)
  case 0
  then show ?case by (simp add: update_triv)
next
  case (Suc j)
  from Suc.prems have j: "j < length responses" by simp
  then have tk: "take (Suc j) responses = take j responses @ [responses ! j]"
    by (simp add: take_Suc_conv_app_nth)
  with Suc.prems have "checks rs (responses ! j)" by simp
  then obtain response b where r: "responses ! j = Map response"
    and ir: "inRange response rs = Inr b" and b: "passes rs (responses ! j) = b"
    by (rule checks_cases)
  show ?case
  proof (cases b)
    case True
    have "responses_loop rs (Suc j) responses endpoint = responses_loop rs j responses endpoint"
      using j r ir True by (simp add: index_def)
    also have "\<dots> = Inr (AList.update ''response'' (Slice (filter (passes rs) (take j responses) @ drop j responses)) endpoint)"
      using Suc.prems j tk by (intro Suc.IH) auto
    finally show ?thesis using True b j tk by (simp add: Cons_nth_drop_Suc)
  next
    case False
    let ?rs' = "take j responses @ drop (Suc j) responses"
    let ?e' = "AList.update ''response'' (Slice ?rs') endpoint"
    have "responses_loop rs (Suc j) responses endpoint = responses_loop rs j ?rs' ?e'"
      using j r ir False by (simp add: index_def slices_Delete_def)
    also have "\<dots> = Inr (AList.update ''response'' (Slice (filter (passes rs) (take j ?rs') @ drop j ?rs')) ?e')"
      using Suc.prems j tk by (intro Suc.IH) (auto simp: update_conv')
    finally show ?thesis using False b j tk by simp
  qed
qed

lemma responses_loop_checks:
  assumes "responses_loop rs n responses endpoint = Inr e'" and "n \<le> length responses"
  shows "\<forall>x \<in> set (take n responses). checks rs x"
  using assms
proof (induction n arbitrary: responses endpoint)
  case 0
  then show ?case by simp
next
  case (Suc j)
  from Suc.prems have j: "j < length responses" by simp
  then have tk: "take (Suc j) responses = take j responses @ [responses ! j]"
    by (simp add: take_Suc_conv_app_nth)
  from Suc.prems(1) j obtain response b where r: "responses ! j = Map response"
    and ir: "inRange response rs = Inr b"
    by (cases "responses ! j") (auto simp: index_def split: sum.splits)
  have here: "checks rs (responses ! j)" using r ir by simp
  have "\<forall>x \<in> set (take j responses). checks rs x"
  proof (cases b)
    case True
    with Suc.prems(1) j r ir have "responses_loop rs j responses endpoint = Inr e'"
      by (simp add: index_def)
    then show ?thesis using j by (intro Suc.IH[of responses endpoint]) auto
  next
    case False
    let ?rs' = "take j responses @ drop (Suc j) responses"
    from False Suc.prems(1) j r ir
    have "responses_loop rs j ?rs' (AList.update ''response'' (Slice ?rs') endpoint) = Inr e'"
      by (simp add: index_def slices_Delete_def)
    then have "\<forall>x \<in> set (take j ?rs'). checks rs x"
      using j by (intro Suc.IH[of ?rs']) auto
    then show ?thesis using j by simp
  qed
  with here tk show ?case by simp
qed

lemma endpoint_checks_cases:
  assumes "endpoint_checks rs x"
  obtains m rsp where "x = Map m" and "map_of m ''response'' = Some (Slice rsp)" and "\<forall>y \<in> set rsp. checks rs y"
  using assms by (cases x) (auto split: option.splits any.splits simp: list_all_iff)

lemma endpoints_loop_filter:
  assumes "\<forall>x \<in> set es. endpoint_checks rs x"
  shows "endpoints_loop rs es = Inr (map (with_responses (filter (passes rs))) es)"
  using assms
proof (induction es)
  case Nil
  then show ?case by simp
next
  case (Cons x es)
  then have "endpoint_checks rs x" by simp
  then obtain m rsp where x: "x = Map m" and m: "map_of m ''response'' = Some (Slice rsp)"
    and c: "\<forall>y \<in> set rsp. checks rs y"
    by (rule endpoint_checks_cases)
  have "responses_loop rs (length rsp) rsp m = Inr (AList.update ''response'' (Slice (filter (passes rs) rsp)) m)"
    using responses_loop_filter[of "length rsp" rsp m rs] m c by simp
  with Cons x m show ?case by simp
qed

lemma endpoints_loop_checks:
  assumes "endpoints_loop rs es = Inr es'"
  shows "\<forall>x \<in> set es. endpoint_checks rs x"
  using assms
proof (induction es arbitrary: es')
  case Nil
  then show ?case by simp
next
  case (Cons x es)
  from Cons.prems obtain m where x: "x = Map m"
    by (cases x) (auto split: sum.splits)
  from Cons.prems x obtain rsp where m: "map_of m ''response'' = Some (Slice rsp)"
    by (auto simp: assert_slice_Inr split: sum.splits)
  from Cons.prems x m obtain e' rest' where l: "responses_loop rs (length rsp) rsp m = Inr e'"
    and r: "endpoints_loop rs es = Inr rest'"
    by (auto split: sum.splits)
  from responses_loop_checks[OF l] have "\<forall>y \<in> set rsp. checks rs y" by simp
  with x m have "endpoint_checks rs x" by (simp add: list_all_iff)
  with Cons.IH[OF r] show ?case by simp
qed

lemma inRange_pairs:
  assumes "map_of response ''code'' = Some (Float64 f)" and "\<forall>r \<in> set rs. length r = 2"
  shows "inRange response rs = Inr (in_some_range (int_of_float64 f) rs)"
  using assms
proof (induction rs)
  case Nil
  then show ?case by (simp add: in_some_range_def)
next
  case (Cons r rs)
  then obtain s e where r: "r = [s, e]"
    by (cases r; cases "tl r") auto
  with Cons show ?case
    by (auto simp: in_some_range_def index_def Let_def)
qed

lemma is_response_checks:
  assumes "is_response x" and "\<forall>r \<in> set rs. length r = 2"
  shows "checks rs x" and "passes rs x = kept rs x"
proof -
  from assms(1) obtain m f where x: "x = Map m" and c: "map_of m ''code'' = Some (Float64 f)"
    by (cases x) (auto simp: is_response_def split: option.splits any.splits)
  from inRange_pairs[OF c assms(2)] x c
  show "checks rs x" and "passes rs x = kept rs x"
    by (simp_all add: kept_def)
qed

lemma is_endpoint_checks:
  assumes "is_endpoint x" and "\<forall>r \<in> set rs. length r = 2"
  shows "endpoint_checks rs x"
    and "with_responses (filter (passes rs)) x = with_responses (filter (kept rs)) x"
proof -
  from assms(1) obtain m rsp where x: "x = Map m" and m: "map_of m ''response'' = Some (Slice rsp)"
    and a: "\<forall>y \<in> set rsp. is_response y"
    by (cases x) (auto simp: is_endpoint_def list_all_iff split: option.splits any.splits)
  have "\<forall>y \<in> set rsp. checks rs y \<and> passes rs y = kept rs y"
    using a is_response_checks[OF _ assms(2)] by auto
  then have "list_all (checks rs) rsp" and "filter (passes rs) rsp = filter (kept rs) rsp"
    by (auto simp: list_all_iff intro: filter_cong)
  with x m show "endpoint_checks rs x"
    and "with_responses (filter (passes rs)) x = with_responses (filter (kept rs)) x"
    by simp_all
qed

lemma filter_nonempty_ranges:
  assumes "rs \<noteq> []"
  shows "filterResponsesByStatus c (Some rs) =
           (case assert_slice (map_of c ''item'') of
              Inl p \<Rightarrow> Inl p
            | Inr es \<Rightarrow> (case endpoints_loop rs es of
                Inl p \<Rightarrow> Inl p
              | Inr es' \<Rightarrow> Inr (AList.update ''item'' (Slice es') c)))"
  using assms by (simp add: filterResponsesByStatus_def)

lemma inverted_range_matches_nothing:
  assumes "e < s" and "map_of response ''code'' = Some (Float64 f)"
  shows "inRange response [[s, e]] = Inr False"
  using assms by (simp add: index_def Let_def)

text \<open>
  Claim C1. For a collection of the shape the data model describes and a non-empty list
  of ranges (pairs), \<^verbatim>\<open>filterResponsesByStatus\<close> leaves the collection with every
  endpoint's \<^verbatim>\<open>response\<close> list replaced by the sublist, in the original order, of the
  responses whose code lies in some range, both ends included, and changes nothing else.
  With a \<^verbatim>\<open>nil\<close> or empty list of ranges the collection is unchanged. A range whose
  start is above its end matches no code.
\<close>

theorem filterResponsesByStatus_keeps_in_range:
  "(is_collection c \<and> rs \<noteq> [] \<and> (\<forall>r \<in> set rs. length r = 2) \<longrightarrow>
      filterResponsesByStatus c (Some rs) =
        Inr (AList.update ''item''
               (Slice (map (with_responses (filter (kept rs))) (endpoints_of c))) c))
   \<and> filterResponsesByStatus c None = Inr c
   \<and> filterResponsesByStatus c (Some []) = Inr c
   \<and> (e < s \<and> map_of response ''code'' = Some (Float64 f) \<longrightarrow>
        inRange response [[s, e]] = Inr False)"
proof (intro conjI impI)
  assume a: "is_collection c \<and> rs \<noteq> [] \<and> (\<forall>r \<in> set rs. length r = 2)"
  then obtain es where es: "map_of c ''item'' = Some (Slice es)" and all: "\<forall>x \<in> set es. is_endpoint x"
    by (auto simp: is_collection_def list_all_iff split: option.splits any.splits)
  have "\<forall>x \<in> set es. endpoint_checks rs x"
    using all a is_endpoint_checks(1)[of _ rs] by auto
  then have "endpoints_loop rs es = Inr (map (with_responses (filter (passes rs))) es)"
    by (rule endpoints_loop_filter)
  also have "map (with_responses (filter (passes rs))) es = map (with_responses (filter (kept rs))) es"
    using all a by (intro map_cong refl is_endpoint_checks(2)) auto
  finally show "filterResponsesByStatus c (Some rs) =
        Inr (AList.update ''item''
               (Slice (map (with_responses (filter (kept rs))) (endpoints_of c))) c)"
    using a es by (simp add: filter_nonempty_ranges endpoints_of_def)
next
  show "filterResponsesByStatus c None = Inr c"
    by (simp add: filterResponsesByStatus_def)
next
  show "filterResponsesByStatus c (Some []) = Inr c"
    by (simp add: filterResponsesByStatus_def)
next
  assume "e < s \<and> map_of response ''code'' = Some (Float64 f)"
  then show "inRange response [[s, e]] = Inr False"
    using inverted_range_matches_nothing[of e s response f] by blast
qed

theorem filterResponsesByStatus_keeps_in_range_witness:
  "is_collection sample_collection \<and> [[200, 299], [500, 400 :: int]] \<noteq> []
   \<and> list_all (\<lambda>r. length r = 2) [[200, 299], [500, 400 :: int]]
   \<and> filterResponsesByStatus sample_collection (Some [[200, 299], [500, 400]]) = Inr sample_filtered
   \<and> (400 :: int) < 500 \<and> map_of [(''code'', Float64 404)] ''code'' = Some (Float64 404)
   \<and> inRange [(''code'', Float64 404)] [[500, 400]] = Inr False"
proof -
  let ?rs = "[[200, 299], [500, 400 :: int]]"
  have h1: "is_collection sample_collection \<and> ?rs \<noteq> [] \<and> (\<forall>r \<in> set ?rs. length r = 2)"
    by (simp add: sample_collection_def is_collection_def is_endpoint_def is_response_def)
  have h2: "(400 :: int) < 500 \<and> map_of [(''code'', Float64 404)] ''code'' = Some (Float64 404)"
    by simp
  note inst = filterResponsesByStatus_keeps_in_range
    [of sample_collection ?rs 400 500 "[(''code'', Float64 404)]" 404]
  from inst h1 have "filterResponsesByStatus sample_collection (Some ?rs) =
      Inr (AList.update ''item''
             (Slice (map (with_responses (filter (kept ?rs))) (endpoints_of sample_collection)))
             sample_collection)"
    by blast
  then have r1: "filterResponsesByStatus sample_collection (Some ?rs) = Inr sample_filtered"
    by (simp add: sample_collection_def sample_filtered_def endpoints_of_def kept_def
        in_some_range_def int_of_float64_def)
  from inst h2 have r2: "inRange [(''code'', Float64 404)] [[500, 400]] = Inr False"
    by blast
  from h1 h2 r1 r2 show ?thesis by simp
qed

lemma passes_checks: "passes rs x \<Longrightarrow> checks rs x"
  by (cases x) auto

lemma with_responses_filter_idem:
  assumes "endpoint_checks rs x"
  shows "endpoint_checks rs (with_responses (filter (passes rs)) x)"
    and "with_responses (filter (passes rs)) (with_responses (filter (passes rs)) x) =
         with_responses (filter (passes rs)) x"
proof -
  from assms obtain m rsp where x: "x = Map m" and m: "map_of m ''response'' = Some (Slice rsp)"
    by (rule endpoint_checks_cases)
  from x m show "endpoint_checks rs (with_responses (filter (passes rs)) x)"
    by (auto simp: update_conv' list_all_iff intro: passes_checks)
  from x m show "with_responses (filter (passes rs)) (with_responses (filter (passes rs)) x) =
         with_responses (filter (passes rs)) x"
    by (simp add: update_conv')
qed

lemma endpoints_loop_idem:
  assumes "endpoints_loop rs es = Inr es'"
  shows "endpoints_loop rs es' = Inr es'"
proof -
  from assms have c: "\<forall>x \<in> set es. endpoint_checks rs x"
    by (rule endpoints_loop_checks)
  with assms have es': "es' = map (with_responses (filter (passes rs))) es"
    by (simp add: endpoints_loop_filter)
  from c have "\<forall>x \<in> set es'. endpoint_checks rs x"
    unfolding es' by (auto intro: with_responses_filter_idem(1))
  then have "endpoints_loop rs es' = Inr (map (with_responses (filter (passes rs))) es')"
    by (rule endpoints_loop_filter)
  also have "map (with_responses (filter (passes rs))) es' = es'"
    unfolding es' using c by (simp add: with_responses_filter_idem(2))
  finally show ?thesis .
qed

text \<open>
  Claim C8. Filtering is idempotent: if \<^verbatim>\<open>filterResponsesByStatus\<close> returns, running it
  again with the same ranges on the collection it left returns too and changes nothing.
\<close>

theorem filterResponsesByStatus_idempotent:
  assumes "filterResponsesByStatus c rs = Inr c'"
  shows "filterResponsesByStatus c' rs = Inr c'"
proof (cases "rs = None \<or> rs = Some []")
  case True
  with assms show ?thesis
    by (auto simp: filterResponsesByStatus_def)
next
  case False
  then obtain rgs where rs: "rs = Some rgs" and ne: "rgs \<noteq> []"
    by (cases rs) auto
  from assms obtain es es' where es: "map_of c ''item'' = Some (Slice es)"
    and l: "endpoints_loop rgs es = Inr es'"
    and c': "c' = AList.update ''item'' (Slice es') c"
    unfolding rs filter_nonempty_ranges[OF ne]
    by (auto simp: assert_slice_Inr split: sum.splits)
  have "map_of c' ''item'' = Some (Slice es')"
    by (simp add: c' update_conv')
  moreover from l have "endpoints_loop rgs es' = Inr es'"
    by (rule endpoints_loop_idem)
  ultimately show ?thesis
    unfolding rs filter_nonempty_ranges[OF ne] by (simp add: c')
qed

theorem filterResponsesByStatus_idempotent_witness:
  "filterResponsesByStatus sample_collection (Some [[200, 299]]) = Inr sample_filtered
   \<and> filterResponsesByStatus sample_filtered (Some [[200, 299]]) = Inr sample_filtered"
proof -
  have once: "filterResponsesByStatus sample_collection (Some [[200, 299]]) = Inr sample_filtered"
    by (simp add: filterResponsesByStatus_def sample_collection_def sample_filtered_def
        index_def slices_Delete_def int_of_float64_def)
  from filterResponsesByStatus_idempotent[OF once] once show ?thesis by blast
qed

subsection \<open>parseStatusRanges\<close>

lemma strings_Split_nonempty: "strings_Split s sep \<noteq> []"
  by (cases s) auto

lemma strings_Split_no_sep: "sep \<notin> set s \<Longrightarrow> strings_Split s sep = [s]"
  by (induction s) auto

lemma strings_Split_at_sep:
  "sep \<notin> set a \<Longrightarrow> strings_Split (a @ sep # b) sep = a # strings_Split b sep"
  by (induction a) auto

lemma strings_Split_join_commas:
  assumes "ts \<noteq> []" and "\<forall>t \<in> set ts. CHR '','' \<notin> set t"
  shows "strings_Split (join_commas ts) CHR '','' = ts"
  using assms
proof (induction ts rule: join_commas.induct)
  case 1
  then show ?case by simp
next
  case (2 t)
  then show ?case by (simp add: strings_Split_no_sep)
next
  case (3 t u us)
  then show ?case by (simp add: strings_Split_at_sep)
qed

lemma join_commas_nonempty: "ts \<noteq> [] \<Longrightarrow> hd ts \<noteq> [] \<Longrightarrow> join_commas ts \<noteq> []"
  by (cases ts rule: join_commas.cases) auto

lemma is_digit_not_punct: "is_digit c \<Longrightarrow> c \<noteq> CHR ''-'' \<and> c \<noteq> CHR '','' \<and> c \<noteq> CHR ''+''"
  by (auto simp: is_digit_def)

lemma digit_val_nonneg: "is_digit c \<Longrightarrow> 0 \<le> digit_val c"
  by (auto simp: is_digit_def digit_val_def)

lemma foldl_digits_nonneg:
  "list_all is_digit s \<Longrightarrow> 0 \<le> n \<Longrightarrow> 0 \<le> foldl (\<lambda>n c. n * 10 + digit_val c) n s"
  by (induction s arbitrary: n) (auto simp: digit_val_nonneg)

lemma decimal_nonneg: "list_all is_digit s \<Longrightarrow> 0 \<le> decimal s"
  by (simp add: decimal_def foldl_digits_nonneg)

lemma Atoi_INT:
  assumes "is_INT s"
  shows "Atoi s = Some (decimal s)"
proof -
  from assms obtain c cs where s: "s = c # cs" and d: "list_all is_digit s" and b: "decimal s < 2 ^ 63"
    by (cases s) (auto simp: is_INT_def)
  from s d have c: "c \<noteq> CHR ''-''" "c \<noteq> CHR ''+''"
    using is_digit_not_punct[of c] by auto
  have "- (2 ^ 63) \<le> (0 :: int)" by simp
  with decimal_nonneg[OF d] have "\<not> decimal s < - (2 ^ 63)" by linarith
  with s d b c show ?thesis
    by (simp add: Atoi_def Let_def)
qed

lemma Atoi_empty: "Atoi [] = None"
  by (simp add: Atoi_def)

lemma INT_no_punct: "is_INT s \<Longrightarrow> CHR ''-'' \<notin> set s \<and> CHR '','' \<notin> set s"
  using is_digit_not_punct by (auto simp: is_INT_def list_all_iff)

lemma statusRange_body_wf:
  assumes "wf_range r"
  shows "statusRange_body (render_range r) = Inr (Inr (range_meaning r))"
proof (cases r)
  case (Pair n mo)
  show ?thesis
  proof (cases mo)
    case None
    with Pair assms have n: "is_INT n" by simp
    then have "strings_Split n CHR ''-'' = [n]"
      by (simp add: strings_Split_no_sep INT_no_punct)
    with Pair None Atoi_INT[OF n] show ?thesis
      by (simp add: statusRange_body_def index_def)
  next
    case (Some m)
    with Pair assms have n: "is_INT n" and m: "is_INT m" by simp_all
    then have "strings_Split (n @ CHR ''-'' # m) CHR ''-'' = [n, m]"
      by (simp add: strings_Split_at_sep strings_Split_no_sep INT_no_punct)
    with Pair Some Atoi_INT[OF n] Atoi_INT[OF m] show ?thesis
      by (simp add: statusRange_body_def index_def)
  qed
qed

lemma statusRanges_loop_all:
  assumes "list_all2 (\<lambda>t r. statusRange_body t = Inr (Inr r)) toks rs"
    and "i + length toks \<le> length arr"
  shows "statusRanges_loop i toks arr = Inr (Some (take i arr @ rs @ drop (i + length toks) arr), None)"
  using assms
proof (induction toks rs arbitrary: i arr rule: list_all2_induct)
  case Nil
  then show ?case by simp
next
  case (Cons t toks r rs)
  then have i: "i < length arr" by simp
  have "statusRanges_loop i (t # toks) arr = statusRanges_loop (Suc i) toks (arr[i := r])"
    using Cons.hyps i by simp
  also have "\<dots> = Inr (Some (take (Suc i) (arr[i := r]) @ rs
                       @ drop (Suc i + length toks) (arr[i := r])), None)"
    using Cons.prems by (intro Cons.IH) auto
  also have "take (Suc i) (arr[i := r]) = take i arr @ [r]"
    using i by (simp add: take_Suc_conv_app_nth)
  finally show ?case by simp
qed

lemma statusRange_body_total: "\<exists>x. statusRange_body t = Inr x"
proof -
  obtain p ps where "strings_Split t CHR ''-'' = p # ps"
    using strings_Split_nonempty[of t "CHR ''-''"] by (cases "strings_Split t CHR ''-''") auto
  then show ?thesis
    by (cases ps) (auto simp: statusRange_body_def index_def Let_def split: option.splits)
qed

lemma statusRange_body_error:
  assumes "statusRange_body t = Inr (Inl e)"
  shows "(length (strings_Split t CHR ''-'') > 2 \<and> e = Errorf dashes_format [t])
       \<or> (\<exists>s \<in> set (strings_Split t CHR ''-''). Atoi s = None \<and> e = Errorf integer_format [s])"
proof -
  obtain p ps where s: "strings_Split t CHR ''-'' = p # ps"
    using strings_Split_nonempty[of t "CHR ''-''"] by (cases "strings_Split t CHR ''-''") auto
  with assms show ?thesis
    by (cases ps) (auto simp: statusRange_body_def index_def Let_def split: option.splits if_splits)
qed

lemma statusRange_body_malformed:
  "malformed t \<longleftrightarrow> (\<exists>e. statusRange_body t = Inr (Inl e))"
proof -
  obtain p ps where s: "strings_Split t CHR ''-'' = p # ps"
    using strings_Split_nonempty[of t "CHR ''-''"] by (cases "strings_Split t CHR ''-''") auto
  show ?thesis
  proof (cases ps)
    case Nil
    with s show ?thesis
      by (auto simp: malformed_def statusRange_body_def index_def Let_def split: option.splits)
  next
    case (Cons q qs)
    with s show ?thesis
      by (cases qs) (auto simp: malformed_def statusRange_body_def index_def Let_def split: option.splits)
  qed
qed

lemma statusRanges_loop_result:
  assumes "i + length toks \<le> length arr"
  shows "(\<exists>rs. statusRanges_loop i toks arr = Inr (Some rs, None) \<and> (\<forall>t \<in> set toks. \<not> malformed t))
       \<or> (\<exists>t \<in> set toks. \<exists>e. statusRange_body t = Inr (Inl e)
             \<and> statusRanges_loop i toks arr = Inr (None, Some e))"
  using assms
proof (induction toks arbitrary: i arr)
  case Nil
  then show ?case by simp
next
  case (Cons t toks)
  then have i: "i < length arr" by simp
  from statusRange_body_total[of t] obtain x where x: "statusRange_body t = Inr x" ..
  show ?case
  proof (cases x)
    case (Inl e)
    with x show ?thesis by simp
  next
    case (Inr r)
    with x have nm: "\<not> malformed t" by (simp add: statusRange_body_malformed)
    have step: "statusRanges_loop i (t # toks) arr = statusRanges_loop (Suc i) toks (arr[i := r])"
      using x Inr i by simp
    from Cons.prems have "Suc i + length toks \<le> length (arr[i := r])" by simp
    from Cons.IH[OF this] nm show ?thesis
      unfolding step by auto
  qed
qed

lemma parseStatusRanges_result:
  assumes "s \<noteq> []"
  shows "(\<exists>rs. parseStatusRanges s = Inr (Some rs, None)
            \<and> (\<forall>t \<in> set (strings_Split s CHR '',''). \<not> malformed t))
       \<or> (\<exists>t \<in> set (strings_Split s CHR '',''). \<exists>e. statusRange_body t = Inr (Inl e)
             \<and> parseStatusRanges s = Inr (None, Some e))"
  using assms statusRanges_loop_result[of 0 "strings_Split s CHR '',''"
      "replicate (length (strings_Split s CHR '','')) []"]
  by (simp add: parseStatusRanges_def Let_def)

lemma strings_Split_singleton_empty: "strings_Split u sep = [[]] \<Longrightarrow> u = []"
  using strings_Split_nonempty[of "tl u" sep] by (cases u) (auto split: if_splits)

lemma last_strings_Split:
  assumes "u \<noteq> []" and "last u = sep"
  shows "last (strings_Split u sep) = []"
  using assms
proof (induction u)
  case Nil
  then show ?case by simp
next
  case (Cons c u)
  show ?case
  proof (cases "u = []")
    case True
    with Cons.prems show ?thesis by simp
  next
    case False
    with Cons have ih: "last (strings_Split u sep) = []" by simp
    obtain x xs where S: "strings_Split u sep = x # xs"
      using strings_Split_nonempty[of u sep] by (cases "strings_Split u sep") auto
    have "xs \<noteq> []"
    proof
      assume "xs = []"
      with S ih have "strings_Split u sep = [[]]" by simp
      with False show False by (simp add: strings_Split_singleton_empty)
    qed
    with S ih show ?thesis by simp
  qed
qed

lemma edge_dash_malformed:
  assumes "t = [] \<or> hd t = CHR ''-'' \<or> last t = CHR ''-''"
  shows "malformed t"
proof -
  have "[] \<in> set (strings_Split t CHR ''-'')"
  proof (cases "t = []")
    case True
    then show ?thesis by simp
  next
    case False
    with assms consider "hd t = CHR ''-''" | "last t = CHR ''-''" by blast
    then show ?thesis
    proof cases
      case 1
      with False show ?thesis by (cases t) auto
    next
      case 2
      from last_strings_Split[OF False 2] strings_Split_nonempty[of t "CHR ''-''"]
      show ?thesis by (metis last_in_set)
    qed
  qed
  with Atoi_empty show ?thesis
    by (auto simp: malformed_def)
qed


lemma parseStatusRanges_wf:
  assumes "rs \<noteq> []" and "list_all wf_range rs"
  shows "parseStatusRanges (join_commas (map render_range rs)) = Inr (Some (map range_meaning rs), None)"
proof -
  let ?toks = "map render_range rs"
  have no_comma: "\<forall>t \<in> set ?toks. CHR '','' \<notin> set t"
  proof
    fix t assume "t \<in> set ?toks"
    then obtain r where r: "r \<in> set rs" and t: "t = render_range r" by auto
    with assms(2) have "wf_range r" by (simp add: list_all_iff)
    with t show "CHR '','' \<notin> set t"
      by (cases r rule: render_range.cases) (auto simp: INT_no_punct)
  qed
  have "hd ?toks \<noteq> []"
  proof -
    from assms have "wf_range (hd rs)" by (cases rs) auto
    then have "render_range (hd rs) \<noteq> []"
      by (cases "hd rs" rule: render_range.cases) (auto simp: is_INT_def)
    with assms(1) show ?thesis by (simp add: hd_map)
  qed
  with assms(1) have ne: "join_commas ?toks \<noteq> []"
    by (simp add: join_commas_nonempty)
  from assms(1) no_comma have sp: "strings_Split (join_commas ?toks) CHR '','' = ?toks"
    by (intro strings_Split_join_commas) auto
  have body: "list_all2 (\<lambda>t r. statusRange_body t = Inr (Inr r)) ?toks (map range_meaning rs)"
    using assms(2)
    by (simp add: list_all2_map1 list_all2_map2 list_all2_same list_all_iff statusRange_body_wf)
  have "statusRanges_loop 0 ?toks (replicate (length ?toks) []) =
          Inr (Some (map range_meaning rs), None)"
    using statusRanges_loop_all[OF body, of 0 "replicate (length ?toks) []"] by simp
  with ne sp show ?thesis
    by (simp add: parseStatusRanges_def Let_def)
qed

text \<open>
  Claim C5. Every expression of the grammar is mapped to its ranges, in token order: the
  token \<open>N\<close> to \<open>[N, N]\<close> and the token \<open>N-M\<close> to \<open>[N, M]\<close>, whatever the order of the
  two bounds. \<^verbatim>\<open>"200"\<close> gives \<open>[[200, 200]]\<close>, \<^verbatim>\<open>"200-299,400-499"\<close> gives
  \<open>[[200, 299], [400, 499]]\<close>, and the empty string gives \<^verbatim>\<open>nil\<close> with no error.
\<close>

theorem parseStatusRanges_well_formed:
  "(rs \<noteq> [] \<and> list_all wf_range rs \<longrightarrow>
      parseStatusRanges (join_commas (map render_range rs)) = Inr (Some (map range_meaning rs), None))
   \<and> parseStatusRanges ''200'' = Inr (Some [[200, 200]], None)
   \<and> parseStatusRanges ''200-299,400-499'' = Inr (Some [[200, 299], [400, 499]], None)
   \<and> parseStatusRanges [] = Inr (None, None)"
proof (intro conjI impI)
  assume "rs \<noteq> [] \<and> list_all wf_range rs"
  then show "parseStatusRanges (join_commas (map render_range rs)) = Inr (Some (map range_meaning rs), None)"
    by (simp add: parseStatusRanges_wf)
next
  show "parseStatusRanges ''200'' = Inr (Some [[200, 200]], None)"
    by code_simp
next
  show "parseStatusRanges ''200-299,400-499'' = Inr (Some [[200, 299], [400, 499]], None)"
    by code_simp
next
  show "parseStatusRanges [] = Inr (None, None)"
    by (simp add: parseStatusRanges_def)
qed

theorem parseStatusRanges_well_formed_witness:
  "[(''500'', Some ''400''), (''404'', None)] \<noteq> []
   \<and> list_all wf_range [(''500'', Some ''400''), (''404'', None)]
   \<and> join_commas (map render_range [(''500'', Some ''400''), (''404'', None)]) = ''500-400,404''
   \<and> parseStatusRanges ''500-400,404'' = Inr (Some [[500, 400], [404, 404]], None)"
proof -
  let ?rs = "[(''500'', Some ''400''), (''404'', None)]"
  have h: "?rs \<noteq> [] \<and> list_all wf_range ?rs"
    by (simp add: is_INT_def is_digit_def decimal_def digit_val_def)
  have j: "join_commas (map render_range ?rs) = ''500-400,404''"
    by simp
  have m: "map range_meaning ?rs = [[500, 400], [404, 404]]"
    by (simp add: decimal_def digit_val_def)
  from parseStatusRanges_well_formed[of ?rs] h
  have "parseStatusRanges (join_commas (map render_range ?rs)) = Inr (Some (map range_meaning ?rs), None)"
    by blast
  with h j m show ?thesis by simp
qed

text \<open>
  Claim C6. A non-empty expression with a malformed token (more than one dash, or a
  start or end that is not an integer) makes \<^verbatim>\<open>parseStatusRanges\<close> return an error.
  Whenever an error is returned the range list is \<^verbatim>\<open>nil\<close>, and the error either names a
  token with more than one dash or reports a start or end that failed to parse.
  \<^verbatim>\<open>"200-299-300"\<close> gives the error about dashes, \<^verbatim>\<open>"abc"\<close> the error that reports
  \<^verbatim>\<open>"abc"\<close>.
\<close>

theorem parseStatusRanges_malformed:
  "(statusesStr \<noteq> [] \<and> (\<exists>tok \<in> set (strings_Split statusesStr CHR '',''). malformed tok) \<longrightarrow>
      (\<exists>e. parseStatusRanges statusesStr = Inr (None, Some e)))
   \<and> (parseStatusRanges statusesStr = Inr (ranges, Some e) \<longrightarrow>
        ranges = None
        \<and> (\<exists>tok \<in> set (strings_Split statusesStr CHR '','').
              (length (strings_Split tok CHR ''-'') > 2 \<and> e = Errorf dashes_format [tok])
            \<or> (\<exists>s \<in> set (strings_Split tok CHR ''-'').
                  Atoi s = None \<and> e = Errorf integer_format [s])))
   \<and> parseStatusRanges ''200-299-300'' = Inr (None, Some (Errorf dashes_format [''200-299-300'']))
   \<and> parseStatusRanges ''abc'' = Inr (None, Some (Errorf integer_format [''abc'']))"
proof (intro conjI impI)
  assume a: "statusesStr \<noteq> [] \<and> (\<exists>tok \<in> set (strings_Split statusesStr CHR '',''). malformed tok)"
  with parseStatusRanges_result[of statusesStr]
  show "\<exists>e. parseStatusRanges statusesStr = Inr (None, Some e)"
    by auto
next
  assume r: "parseStatusRanges statusesStr = Inr (ranges, Some e)"
  then have ne: "statusesStr \<noteq> []"
    by (auto simp: parseStatusRanges_def)
  from parseStatusRanges_result[OF ne] r
  obtain t where t: "t \<in> set (strings_Split statusesStr CHR '','')"
    and b: "statusRange_body t = Inr (Inl e)" and n: "ranges = None"
    by auto
  from n show "ranges = None" .
  from statusRange_body_error[OF b] t
  show "\<exists>tok \<in> set (strings_Split statusesStr CHR '','').
              (length (strings_Split tok CHR ''-'') > 2 \<and> e = Errorf dashes_format [tok])
            \<or> (\<exists>s \<in> set (strings_Split tok CHR ''-'').
                  Atoi s = None \<and> e = Errorf integer_format [s])"
    by blast
next
  show "parseStatusRanges ''200-299-300'' = Inr (None, Some (Errorf dashes_format [''200-299-300'']))"
    by code_simp
next
  show "parseStatusRanges ''abc'' = Inr (None, Some (Errorf integer_format [''abc'']))"
    by code_simp
qed

theorem parseStatusRanges_malformed_witness:
  "''200,4o4-500'' \<noteq> [] \<and> ''4o4-500'' \<in> set (strings_Split ''200,4o4-500'' CHR '','')
   \<and> malformed ''4o4-500''
   \<and> parseStatusRanges ''200,4o4-500'' = Inr (None, Some (Errorf integer_format [''4o4'']))"
proof -
  have t: "''4o4-500'' \<in> set (strings_Split ''200,4o4-500'' CHR '','')"
    by simp
  have "Atoi ''4o4'' = None"
    by (simp add: Atoi_def is_digit_def)
  then have m: "malformed ''4o4-500''"
    by (simp add: malformed_def)
  note inst = parseStatusRanges_malformed[of "''200,4o4-500''"]
  from inst t m obtain e where e: "parseStatusRanges ''200,4o4-500'' = Inr (None, Some e)"
    by blast
  from inst e have "\<exists>tok \<in> set (strings_Split ''200,4o4-500'' CHR '','').
              (length (strings_Split tok CHR ''-'') > 2 \<and> e = Errorf dashes_format [tok])
            \<or> (\<exists>s \<in> set (strings_Split tok CHR ''-'').
                  Atoi s = None \<and> e = Errorf integer_format [s])"
    by blast
  then have "e = Errorf integer_format [''4o4'']"
    by (auto simp: Atoi_def is_digit_def decimal_def digit_val_def)
  with e t m show ?thesis by simp
qed

text \<open>
  Claim C10, amended. For every non-empty expression in which some comma-separated token
  is empty or begins or ends with a dash, \<^verbatim>\<open>parseStatusRanges\<close> returns an error and no
  ranges.
\<close>

theorem parseStatusRanges_edge_dash:
  "statusesStr \<noteq> []
   \<and> (\<exists>tok \<in> set (strings_Split statusesStr CHR '','').
         tok = [] \<or> hd tok = CHR ''-'' \<or> last tok = CHR ''-'') \<longrightarrow>
   (\<exists>e. parseStatusRanges statusesStr = Inr (None, Some e))"
proof
  assume a: "statusesStr \<noteq> []
   \<and> (\<exists>tok \<in> set (strings_Split statusesStr CHR '','').
         tok = [] \<or> hd tok = CHR ''-'' \<or> last tok = CHR ''-'')"
  then obtain tok where "tok \<in> set (strings_Split statusesStr CHR '','')" and "malformed tok"
    using edge_dash_malformed by blast
  with a parseStatusRanges_result[of statusesStr]
  show "\<exists>e. parseStatusRanges statusesStr = Inr (None, Some e)"
    by auto
qed

theorem parseStatusRanges_edge_dash_witness:
  "''-100'' \<noteq> [] \<and> ''-100'' \<in> set (strings_Split ''-100'' CHR '','') \<and> hd ''-100'' = CHR ''-''
   \<and> (\<exists>e. parseStatusRanges ''-100'' = Inr (None, Some e))"
proof -
  have h: "''-100'' \<noteq> [] \<and> ''-100'' \<in> set (strings_Split ''-100'' CHR '','') \<and> hd ''-100'' = CHR ''-''"
    by simp
  with parseStatusRanges_edge_dash[of "''-100''"]
  have "\<exists>e. parseStatusRanges ''-100'' = Inr (None, Some e)"
    by blast
  with h show ?thesis by blast
qed

text \<open>
  The claim C10 as it was stated fails on the empty expression: splitting it at the
  commas gives one token, the empty one, and \<^verbatim>\<open>parseStatusRanges\<close> returns \<^verbatim>\<open>nil, nil\<close>
  for it, before any splitting.
\<close>

theorem parseStatusRanges_empty_expression_counterexample:
  "[] \<in> set (strings_Split [] CHR '','') \<and> parseStatusRanges [] = Inr (None, None)"
  by (simp add: parseStatusRanges_def)

subsection \<open>parseCollection\<close>

lemma parseCollection_checks_schema:
  assumes "map_of collection ''info'' = Some (Map info)"
  shows "parseCollection (Inr collection) =
           (if map_of info ''schema'' = Some (String schema_v210) then Inr (Inr collection)
            else Inr (Inl unknown_schema))"
  using assms by (simp add: parseCollection_def)

lemma parseCollection_decode_error:
  "parseCollection (Inl msg) = Inr (Inl (LibError msg))"
  by (simp add: parseCollection_def)

lemma parseCollection_no_info_object:
  assumes "\<forall>info. map_of collection ''info'' \<noteq> Some (Map info)"
  shows "parseCollection (Inr collection) = Inl InterfaceConversion"
proof -
  from assms have "assert_map (map_of collection ''info'') = Inl InterfaceConversion"
    by (cases "map_of collection ''info''" rule: assert_map.cases) auto
  then show ?thesis by (simp add: parseCollection_def)
qed

text \<open>
  Claim C3 has \<^verbatim>\<open>parseCollection\<close> return the schema error whenever \<^verbatim>\<open>info.schema\<close> is not
  the expected identifier, also when \<^verbatim>\<open>info\<close> is absent. The lemmas above are what holds
  of it: a decode error is returned as it is, and when \<^verbatim>\<open>info\<close> is a mapping the
  collection is returned unchanged if its \<^verbatim>\<open>schema\<close> is the identifier and the schema
  error otherwise, an absent \<^verbatim>\<open>schema\<close> included. When \<^verbatim>\<open>info\<close> is absent or is not a
  mapping, the function panics in the type assertion and returns nothing: so on the
  document \<^verbatim>\<open>{"item": []}\<close> and on \<^verbatim>\<open>{"info": "v1", "item": []}\<close>, while
  \<^verbatim>\<open>{"info": {"name": "Sample API"}, "item": []}\<close> gets the schema error.
\<close>

theorem parseCollection_missing_info_panics:
  "parseCollection (Inr [(''item'', Slice [])]) = Inl InterfaceConversion
   \<and> parseCollection (Inr [(''info'', String ''v1''), (''item'', Slice [])]) = Inl InterfaceConversion
   \<and> parseCollection (Inr [(''info'', Map [(''name'', String ''Sample API'')]), (''item'', Slice [])])
       = Inr (Inl unknown_schema)"
  by (simp add: parseCollection_def)

subsection \<open>CreateUniqueFileName\<close>

lemma first_free_least:
  "\<exists>k \<ge> i. first_free w base ext i = numbered_name base k ext
       \<and> \<not> FileExists w (numbered_name base k ext)
       \<and> (\<forall>j. i \<le> j \<and> j < k \<longrightarrow> FileExists w (numbered_name base j ext))"
proof (induction w base ext i rule: first_free.induct)
  case (1 w base ext i)
  show ?case
  proof (cases "FileExists w (numbered_name base i ext)")
    case False
    then have "first_free w base ext i = numbered_name base i ext"
      by (subst first_free.simps) simp
    with False show ?thesis by (intro exI[of _ i]) auto
  next
    case True
    from "1.IH"[OF True] obtain k where k: "Suc i \<le> k"
      and f: "first_free w base ext (Suc i) = numbered_name base k ext"
      and n: "\<not> FileExists w (numbered_name base k ext)"
      and a: "\<forall>j. Suc i \<le> j \<and> j < k \<longrightarrow> FileExists w (numbered_name base j ext)"
      by blast
    from True f have "first_free w base ext i = numbered_name base k ext"
      by (subst first_free.simps) simp
    moreover have "\<forall>j. i \<le> j \<and> j < k \<longrightarrow> FileExists w (numbered_name base j ext)"
    proof (intro allI impI)
      fix j assume "i \<le> j \<and> j < k"
      then show "FileExists w (numbered_name base j ext)"
        using True a by (cases "j = i") auto
    qed
    ultimately show ?thesis using k n by (intro exI[of _ k]) auto
  qed
qed

text \<open>
  Claim C7. \<^verbatim>\<open>CreateUniqueFileName(base, ext)\<close> panics exactly when the extension is
  malformed (not empty and without a leading dot, or the dot alone). Otherwise it returns
  \<open>base + ext\<close> when no file exists there, and else \<open>base(i)ext\<close> for the least \<open>i\<close> from 1 at
  which no file exists, every smaller number being taken. It creates no file: the files
  are as they were.
\<close>

theorem CreateUniqueFileName_contract:
  "(snd (CreateUniqueFileName w base ext) = Inl CalledPanic \<longleftrightarrow> malformed_ext ext)
   \<and> (\<not> malformed_ext ext \<and> \<not> FileExists w (base @ ext) \<longrightarrow>
        snd (CreateUniqueFileName w base ext) = Inr (base @ ext))
   \<and> (\<not> malformed_ext ext \<and> FileExists w (base @ ext) \<longrightarrow>
        (\<exists>i \<ge> 1. snd (CreateUniqueFileName w base ext) = Inr (numbered_name base i ext)
           \<and> \<not> FileExists w (numbered_name base i ext)
           \<and> (\<forall>j. 1 \<le> j \<and> j < i \<longrightarrow> FileExists w (numbered_name base j ext))))
   \<and> fst (CreateUniqueFileName w base ext) = w"
proof (intro conjI impI)
  show "snd (CreateUniqueFileName w base ext) = Inl CalledPanic \<longleftrightarrow> malformed_ext ext"
    by (auto simp: CreateUniqueFileName_def malformed_ext_def)
next
  assume "\<not> malformed_ext ext \<and> \<not> FileExists w (base @ ext)"
  then show "snd (CreateUniqueFileName w base ext) = Inr (base @ ext)"
    by (auto simp: CreateUniqueFileName_def malformed_ext_def)
next
  assume a: "\<not> malformed_ext ext \<and> FileExists w (base @ ext)"
  then have "snd (CreateUniqueFileName w base ext) = Inr (first_free w base ext 1)"
    by (auto simp: CreateUniqueFileName_def malformed_ext_def)
  with first_free_least[of 1 w base ext]
  show "\<exists>i \<ge> 1. snd (CreateUniqueFileName w base ext) = Inr (numbered_name base i ext)
           \<and> \<not> FileExists w (numbered_name base i ext)
           \<and> (\<forall>j. 1 \<le> j \<and> j < i \<longrightarrow> FileExists w (numbered_name base j ext))"
    by auto
next
  show "fst (CreateUniqueFileName w base ext) = w"
    by (simp add: CreateUniqueFileName_def)
qed

theorem CreateUniqueFileName_contract_witness:
  "\<not> malformed_ext ''.md'' \<and> FileExists repo_dir (''README'' @ ''.md'')
   \<and> snd (CreateUniqueFileName repo_dir ''README'' ''.md'') = Inr ''README(2).md''
   \<and> \<not> FileExists repo_dir ''README(2).md''
   \<and> \<not> malformed_ext [] \<and> FileExists repo_dir (''LICENSE'' @ [])
   \<and> snd (CreateUniqueFileName repo_dir ''LICENSE'' []) = Inr ''LICENSE(1)''
   \<and> \<not> malformed_ext ''.txt'' \<and> \<not> FileExists repo_dir (''nonexistent file'' @ ''.txt'')
   \<and> snd (CreateUniqueFileName repo_dir ''nonexistent file'' ''.txt'') = Inr ''nonexistent file.txt''
   \<and> malformed_ext ''md'' \<and> snd (CreateUniqueFileName repo_dir ''README'' ''md'') = Inl CalledPanic
   \<and> malformed_ext ''.'' \<and> snd (CreateUniqueFileName repo_dir ''nonexistent file'' ''.'') = Inl CalledPanic
   \<and> fst (CreateUniqueFileName repo_dir ''README'' ''.md'') = repo_dir"
proof -
  have ex: "FileExists repo_dir ''README.md''" "FileExists repo_dir ''README(1).md''"
    "FileExists repo_dir ''LICENSE''" "\<not> FileExists repo_dir ''README(2).md''"
    "\<not> FileExists repo_dir ''LICENSE(1)''" "\<not> FileExists repo_dir ''nonexistent file.txt''"
    by (simp_all add: FileExists_def repo_dir_def)
  have ok: "\<not> malformed_ext ''.md''" "\<not> malformed_ext []" "\<not> malformed_ext ''.txt''"
    and bad: "malformed_ext ''md''" "malformed_ext ''.''"
    by (simp_all add: malformed_ext_def)
  have n1: "numbered_name ''README'' 1 ''.md'' = ''README(1).md''"
    and n2: "numbered_name ''README'' 2 ''.md'' = ''README(2).md''"
    and l1: "numbered_name ''LICENSE'' 1 [] = ''LICENSE(1)''"
    by code_simp+
  note readme = CreateUniqueFileName_contract[of repo_dir "''README''" "''.md''"]
  from readme ok ex obtain i where i: "1 \<le> i"
    and r: "snd (CreateUniqueFileName repo_dir ''README'' ''.md'') = Inr (numbered_name ''README'' i ''.md'')"
    and free: "\<not> FileExists repo_dir (numbered_name ''README'' i ''.md'')"
    and below: "\<forall>j. 1 \<le> j \<and> j < i \<longrightarrow> FileExists repo_dir (numbered_name ''README'' j ''.md'')"
    by auto
  have "i = 2"
  proof (rule ccontr)
    assume "i \<noteq> 2"
    with i consider "i = 1" | "2 < i" by linarith
    then show False
    proof cases
      case 1
      with free n1 ex show False by simp
    next
      case 2
      with below have "FileExists repo_dir (numbered_name ''README'' 2 ''.md'')" by simp
      with n2 ex show False by simp
    qed
  qed
  with r n2 have c1: "snd (CreateUniqueFileName repo_dir ''README'' ''.md'') = Inr ''README(2).md''"
    by simp
  note license = CreateUniqueFileName_contract[of repo_dir "''LICENSE''" "[]"]
  from license ok ex obtain k where k: "1 \<le> k"
    and lr: "snd (CreateUniqueFileName repo_dir ''LICENSE'' []) = Inr (numbered_name ''LICENSE'' k [])"
    and lbelow: "\<forall>j. 1 \<le> j \<and> j < k \<longrightarrow> FileExists repo_dir (numbered_name ''LICENSE'' j [])"
    by auto
  have "k = 1"
  proof (rule ccontr)
    assume "k \<noteq> 1"
    with k have "1 < k" by simp
    with lbelow have "FileExists repo_dir (numbered_name ''LICENSE'' 1 [])" by simp
    with l1 ex show False by simp
  qed
  with lr l1 have c2: "snd (CreateUniqueFileName repo_dir ''LICENSE'' []) = Inr ''LICENSE(1)''"
    by simp
  from CreateUniqueFileName_contract[of repo_dir "''nonexistent file''" "''.txt''"] ok ex
  have c3: "snd (CreateUniqueFileName repo_dir ''nonexistent file'' ''.txt'') = Inr ''nonexistent file.txt''"
    by simp
  from CreateUniqueFileName_contract[of repo_dir "''README''" "''md''"] bad
  have c4: "snd (CreateUniqueFileName repo_dir ''README'' ''md'') = Inl CalledPanic"
    by blast
  from CreateUniqueFileName_contract[of repo_dir "''nonexistent file''" "''.''"] bad
  have c5: "snd (CreateUniqueFileName repo_dir ''nonexistent file'' ''.'') = Inl CalledPanic"
    by blast
  from readme have c6: "fst (CreateUniqueFileName repo_dir ''README'' ''.md'') = repo_dir"
    by blast
  from ex ok bad c1 c2 c3 c4 c5 c6 show ?thesis by simp
qed

subsection \<open>getDestFile\<close>

lemma create_at_os_Create: "getDestFile_create w name = create_at w name"
  by (simp add: getDestFile_create_def os_Create_def create_at_def split: option.splits)

lemma create_at_name:
  assumes "create_at w name = Inr (w', (f, finalName, None))"
  shows "finalName = name"
  using assms by (auto simp: create_at_def split: option.splits)

lemma getDestFile_stdout:
  "getDestFile F w ''-'' cn confirm = Inr (w, (Stdout, ''-'', None))"
  by (simp add: getDestFile_def)

lemma getDestFile_given:
  assumes "destName \<noteq> []" and "destName \<noteq> ''-''"
  shows "getDestFile F w destName cn confirm =
           (if FileExists w destName \<and> \<not> confirm
            then Inr (w, (NilFile, [], Some (Errorf file_exists_format [destName])))
            else create_at w destName)"
  using assms by (simp add: getDestFile_def Let_def create_at_os_Create)

lemma not_malformed_md: "\<not> malformed_ext ''.md''"
  by (simp add: malformed_ext_def)

lemma unique_md_name:
  "\<exists>name. CreateUniqueFileName w base ''.md'' = (w, Inr name) \<and> \<not> FileExists w name"
proof (cases "FileExists w (base @ ''.md'')")
  case False
  then show ?thesis by (simp add: CreateUniqueFileName_def)
next
  case True
  from first_free_least[of 1 w base "''.md''"] obtain k
    where "first_free w base ''.md'' 1 = numbered_name base k ''.md''"
      and "\<not> FileExists w (numbered_name base k ''.md'')" by blast
  then have "\<not> FileExists w (first_free w base ''.md'' 1)" by simp
  with True show ?thesis by (simp add: CreateUniqueFileName_def)
qed

lemma getDestFile_generated:
  "\<exists>name. snd (CreateUniqueFileName w (base_name F cn) ''.md'') = Inr name
      \<and> \<not> FileExists w name
      \<and> getDestFile F w [] cn confirm = create_at w name"
proof -
  from unique_md_name[of w "base_name F cn"] obtain name
    where u: "CreateUniqueFileName w (base_name F cn) ''.md'' = (w, Inr name)"
      and n: "\<not> FileExists w name" by blast
  from u have "getDestFile F w [] cn confirm = create_at w name"
    by (simp add: getDestFile_def Let_def base_name_def create_at_os_Create)
  with u n show ?thesis by simp
qed

text \<open>
  Claim C4. \<^verbatim>\<open>getDestFile\<close> has three branches. For the name \<^verbatim>\<open>-\<close> it returns standard
  output and the name \<^verbatim>\<open>-\<close>, with no error and nothing changed. For another non-empty
  name it returns the error that asks for the confirmation when a file exists there and
  the replacement is not confirmed, and otherwise creates or truncates the file at
  exactly that path. For the empty name the base is the sanitized name of the
  collection, or \<^verbatim>\<open>collection\<close> when that is empty; the name is the one that
  \<^verbatim>\<open>CreateUniqueFileName\<close> gives with the extension \<^verbatim>\<open>.md\<close>, no file exists there, and the
  file is created at it. Whenever a file is returned for a non-empty name, the final
  name is the name that was given.
\<close>

theorem getDestFile_contract:
  "getDestFile F w ''-'' cn confirm = Inr (w, (Stdout, ''-'', None))
   \<and> (destName \<noteq> [] \<and> destName \<noteq> ''-'' \<and> FileExists w destName \<and> \<not> confirm \<longrightarrow>
        getDestFile F w destName cn confirm =
          Inr (w, (NilFile, [], Some (Errorf file_exists_format [destName]))))
   \<and> (destName \<noteq> [] \<and> destName \<noteq> ''-'' \<and> (FileExists w destName \<longrightarrow> confirm) \<longrightarrow>
        getDestFile F w destName cn confirm = create_at w destName)
   \<and> (\<exists>name. snd (CreateUniqueFileName w (base_name F cn) ''.md'') = Inr name
         \<and> \<not> FileExists w name
         \<and> getDestFile F w [] cn confirm = create_at w name)
   \<and> (destName \<noteq> [] \<and> getDestFile F w destName cn confirm = Inr (w', (f, finalName, None)) \<longrightarrow>
        finalName = destName)"
proof (intro conjI impI)
  show "getDestFile F w ''-'' cn confirm = Inr (w, (Stdout, ''-'', None))"
    by (rule getDestFile_stdout)
next
  assume "destName \<noteq> [] \<and> destName \<noteq> ''-'' \<and> FileExists w destName \<and> \<not> confirm"
  then show "getDestFile F w destName cn confirm =
          Inr (w, (NilFile, [], Some (Errorf file_exists_format [destName])))"
    by (simp add: getDestFile_given)
next
  assume "destName \<noteq> [] \<and> destName \<noteq> ''-'' \<and> (FileExists w destName \<longrightarrow> confirm)"
  then show "getDestFile F w destName cn confirm = create_at w destName"
    by (auto simp: getDestFile_given)
next
  show "\<exists>name. snd (CreateUniqueFileName w (base_name F cn) ''.md'') = Inr name
         \<and> \<not> FileExists w name
         \<and> getDestFile F w [] cn confirm = create_at w name"
    by (rule getDestFile_generated)
next
  assume a: "destName \<noteq> [] \<and> getDestFile F w destName cn confirm = Inr (w', (f, finalName, None))"
  show "finalName = destName"
  proof (cases "destName = ''-''")
    case True
    with a show ?thesis by (simp add: getDestFile_stdout)
  next
    case False
    with a have "create_at w destName = Inr (w', (f, finalName, None))"
      by (auto simp: getDestFile_given split: if_splits)
    then show ?thesis by (rule create_at_name)
  qed
qed

theorem getDestFile_contract_witness:
  "getDestFile drop_slashes repo_dir ''-'' ''Sample API'' False = Inr (repo_dir, (Stdout, ''-'', None))
   \<and> ''README.md'' \<noteq> [] \<and> ''README.md'' \<noteq> ''-'' \<and> FileExists repo_dir ''README.md''
   \<and> getDestFile drop_slashes repo_dir ''README.md'' ''Sample API'' False =
         Inr (repo_dir, (NilFile, [], Some (Errorf file_exists_format [''README.md''])))
   \<and> getDestFile drop_slashes repo_dir ''README.md'' ''Sample API'' True =
         Inr (repo_dir\<lparr>files := [(''LICENSE'', ''Apache License''), (''README.md'', []),
                                   (''README(1).md'', []), (''-'', ''notes'')],
                        open_files := [''README.md'']\<rparr>,
              (Handle ''README.md'', ''README.md'', None))
   \<and> getDestFile drop_slashes repo_dir [] ''READ/ME'' False =
         Inr (repo_dir\<lparr>files := [(''LICENSE'', ''Apache License''), (''README.md'', ''# pm2md''),
                                   (''README(1).md'', []), (''-'', ''notes''), (''README(2).md'', [])],
                        open_files := [''README(2).md'']\<rparr>,
              (Handle ''README(2).md'', ''README(2).md'', None))
   \<and> getDestFile drop_slashes repo_dir [] ''//'' False =
         Inr (repo_dir\<lparr>files := [(''LICENSE'', ''Apache License''), (''README.md'', ''# pm2md''),
                                   (''README(1).md'', []), (''-'', ''notes''), (''collection.md'', [])],
                        open_files := [''collection.md'']\<rparr>,
              (Handle ''collection.md'', ''collection.md'', None))
   \<and> getDestFile drop_slashes repo_dir ''/proc/out.md'' ''Sample API'' False =
         Inr (repo_dir, (NilFile, [],
              Some (Errorf ''os.Create: %s'' [''open /proc/out.md: permission denied''])))"
proof -
  have ex: "FileExists repo_dir ''README.md''"
    by (simp add: FileExists_def repo_dir_def)
  have c1: "getDestFile drop_slashes repo_dir ''-'' ''Sample API'' False = Inr (repo_dir, (Stdout, ''-'', None))"
    using getDestFile_contract[of drop_slashes repo_dir "''Sample API''" False] by blast
  have c2: "getDestFile drop_slashes repo_dir ''README.md'' ''Sample API'' False =
         Inr (repo_dir, (NilFile, [], Some (Errorf file_exists_format [''README.md''])))"
    using getDestFile_contract[of drop_slashes repo_dir "''Sample API''" False "''README.md''"] ex
    by simp
  have "getDestFile drop_slashes repo_dir ''README.md'' ''Sample API'' True = create_at repo_dir ''README.md''"
    using getDestFile_contract[of drop_slashes repo_dir "''Sample API''" True "''README.md''"]
    by simp
  then have c3: "getDestFile drop_slashes repo_dir ''README.md'' ''Sample API'' True =
         Inr (repo_dir\<lparr>files := [(''LICENSE'', ''Apache License''), (''README.md'', []),
                                   (''README(1).md'', []), (''-'', ''notes'')],
                        open_files := [''README.md'']\<rparr>,
              (Handle ''README.md'', ''README.md'', None))"
    by (simp add: create_at_def repo_dir_def)
  have u1: "snd (CreateUniqueFileName repo_dir (base_name drop_slashes ''READ/ME'') ''.md'') = Inr ''README(2).md''"
    by code_simp
  from getDestFile_contract[of drop_slashes repo_dir "''READ/ME''" False] obtain name
    where "snd (CreateUniqueFileName repo_dir (base_name drop_slashes ''READ/ME'') ''.md'') = Inr name"
      and "getDestFile drop_slashes repo_dir [] ''READ/ME'' False = create_at repo_dir name"
    by blast
  with u1 have "getDestFile drop_slashes repo_dir [] ''READ/ME'' False = create_at repo_dir ''README(2).md''"
    by simp
  then have c4: "getDestFile drop_slashes repo_dir [] ''READ/ME'' False =
         Inr (repo_dir\<lparr>files := [(''LICENSE'', ''Apache License''), (''README.md'', ''# pm2md''),
                                   (''README(1).md'', []), (''-'', ''notes''), (''README(2).md'', [])],
                        open_files := [''README(2).md'']\<rparr>,
              (Handle ''README(2).md'', ''README(2).md'', None))"
    by (simp add: create_at_def repo_dir_def)
  have u2: "snd (CreateUniqueFileName repo_dir (base_name drop_slashes ''//'') ''.md'') = Inr ''collection.md''"
    by code_simp
  from getDestFile_contract[of drop_slashes repo_dir "''//''" False] obtain name
    where "snd (CreateUniqueFileName repo_dir (base_name drop_slashes ''//'') ''.md'') = Inr name"
      and "getDestFile drop_slashes repo_dir [] ''//'' False = create_at repo_dir name"
    by blast
  with u2 have "getDestFile drop_slashes repo_dir [] ''//'' False = create_at repo_dir ''collection.md''"
    by simp
  then have c5: "getDestFile drop_slashes repo_dir [] ''//'' False =
         Inr (repo_dir\<lparr>files := [(''LICENSE'', ''Apache License''), (''README.md'', ''# pm2md''),
                                   (''README(1).md'', []), (''-'', ''notes''), (''collection.md'', [])],
                        open_files := [''collection.md'']\<rparr>,
              (Handle ''collection.md'', ''collection.md'', None))"
    by (simp add: create_at_def repo_dir_def)
  have "getDestFile drop_slashes repo_dir ''/proc/out.md'' ''Sample API'' False =
          create_at repo_dir ''/proc/out.md''"
    using getDestFile_contract[of drop_slashes repo_dir "''Sample API''" False "''/proc/out.md''"]
    by (simp add: FileExists_def repo_dir_def)
  then have c6: "getDestFile drop_slashes repo_dir ''/proc/out.md'' ''Sample API'' False =
         Inr (repo_dir, (NilFile, [],
              Some (Errorf ''os.Create: %s'' [''open /proc/out.md: permission denied''])))"
    by (simp add: create_at_def repo_dir_def)
  from ex c1 c2 c3 c4 c5 c6 show ?thesis by simp
qed

subsection \<open>jsonToMdFile\<close>

lemma getDestFile_handle:
  assumes "getDestFile F w destName cn confirm = Inr (w1, (destFile, finalName, None))"
    and "destName \<noteq> ''-''"
  shows "destFile = Handle finalName"
proof -
  have h: "destFile = Handle finalName" if "create_at w n = Inr (w1, (destFile, finalName, None))" for n
    using that by (auto simp: create_at_def split: option.splits)
  show ?thesis
  proof (cases "destName = []")
    case True
    from getDestFile_generated[of w F cn confirm] True assms(1) obtain name
      where "create_at w name = Inr (w1, (destFile, finalName, None))" by auto
    then show ?thesis by (rule h)
  next
    case False
    with assms have "create_at w destName = Inr (w1, (destFile, finalName, None))"
      by (auto simp: getDestFile_given split: if_splits)
    then show ?thesis by (rule h)
  qed
qed

lemma removed_and_closed:
  "\<not> FileExists (Close (os_Remove (Close w (Handle n)) n) (Handle n)) n"
  "n \<notin> set (open_files (Close (os_Remove (Close w (Handle n)) n) (Handle n)))"
  "\<not> FileExists (os_Remove (Close w (Handle n)) n) n"
  "n \<notin> set (open_files (os_Remove (Close w (Handle n)) n))"
  by (simp_all add: FileExists_def os_Remove_def delete_conv')

lemma jsonToMdFile_failure_on_stdout:
  assumes "parseCollection unmarshalled = Inr (Inr c0)"
    and "filterResponsesByStatus c0 statusRanges = Inr c"
    and "map_of c ''info'' = Some (Map info)"
    and "map_of info ''name'' = Some (String cn)"
    and "executeTemplate eng w Stdout c tmplName tmplStr = (w2, Some err)"
  shows "jsonToMdFile eng F w unmarshalled ''-'' tmplName tmplStr statusRanges confirm
           = Inr (os_Remove (Close w2 Stdout) ''-'', ([], Some err))"
  using assms by (simp add: jsonToMdFile_def getDestFile_def)

lemma jsonToMdFile_removes_partial_file:
  assumes "parseCollection unmarshalled = Inr (Inr c0)"
    and "filterResponsesByStatus c0 statusRanges = Inr c"
    and "map_of c ''info'' = Some (Map info)"
    and "map_of info ''name'' = Some (String cn)"
    and "getDestFile F w destName cn confirm = Inr (w1, (destFile, finalName, None))"
    and "destName \<noteq> ''-''"
    and "executeTemplate eng w1 destFile c tmplName tmplStr = (w2, Some err)"
  shows "\<exists>w3. jsonToMdFile eng F w unmarshalled destName tmplName tmplStr statusRanges confirm
                = Inr (w3, ([], Some err))
             \<and> \<not> FileExists w3 finalName \<and> finalName \<notin> set (open_files w3)"
proof -
  from assms(5,6) have d: "destFile = Handle finalName" by (rule getDestFile_handle)
  let ?w = "os_Remove (Close w2 (Handle finalName)) finalName"
  have "jsonToMdFile eng F w unmarshalled destName tmplName tmplStr statusRanges confirm
          = Inr (if finalName \<noteq> ''-'' then Close ?w (Handle finalName) else ?w, ([], Some err))"
    using assms d by (simp add: jsonToMdFile_def Let_def)
  then show ?thesis
    using removed_and_closed[where w = w2 and n = finalName] by (cases "finalName = ''-''") auto
qed

text \<open>
  Claim C2 has two halves. The first is the lemma \<open>jsonToMdFile_removes_partial_file\<close>:
  when the destination is not \<^verbatim>\<open>-\<close> and the template fails, the error is returned, the
  file is closed and no file is left under the final name. The second half says that
  with the destination \<^verbatim>\<open>-\<close> nothing is deleted and standard output is left as it is.
  The function does otherwise: the failing branch closes \<^verbatim>\<open>os.Stdout\<close> and calls
  \<^verbatim>\<open>os.Remove("-")\<close>. In a directory that holds a file named \<^verbatim>\<open>-\<close>, a failing execution
  towards standard output ends with that file gone and standard output closed.
\<close>

theorem jsonToMdFile_stdout_failure:
  "jsonToMdFile failing_engine drop_slashes repo_dir (Inr sample_collection) ''-''
       ''default.tmpl'' ''# {{ .info.name }}'' None False =
     Inr (\<lparr>files = [(''LICENSE'', ''Apache License''), (''README.md'', ''# pm2md''),
                     (''README(1).md'', [])],
           create_errors = [(''/proc/out.md'', ''open /proc/out.md: permission denied'')],
           open_files = [], stdout = ''# Sample API'', stdout_closed = True\<rparr>,
          ([], Some (LibError ''error calling join'')))"
  by (simp add: jsonToMdFile_def parseCollection_def sample_collection_def
      filterResponsesByStatus_def getDestFile_def executeTemplate_def failing_engine_def
      os_Remove_def repo_dir_def)

end
